theory Spec2Isabelle
  imports Complex_Main "HOL-Library.Multiset"
begin

section \<open>Water-quality image processor: candidate extraction and selection\<close>

text \<open>
  A shallow embedding of \<^verbatim>\<open>scripts/process-image.js\<close>. The functions
  \<^verbatim>\<open>extractNumericValue\<close> and \<^verbatim>\<open>processImage\<close> are translated
  statement by statement; the JavaScript built-ins they call (\<^verbatim>\<open>String.replace\<close>,
  \<^verbatim>\<open>trim\<close>, \<^verbatim>\<open>match\<close>, \<^verbatim>\<open>parseFloat\<close>, \<^verbatim>\<open>toFixed\<close>) are modelled after
  ECMA-262. The image library and the OCR engine are external: their behaviour is an
  argument of the model.
\<close>

subsection \<open>JavaScript numbers\<close>

text \<open>
  A Number is NaN, an infinity, or a finite binary64 value, kept as the real number it
  denotes. Negative zero is identified with zero: the program only compares numbers
  (\<^verbatim>\<open>>=\<close>, \<^verbatim>\<open><=\<close>), tests \<^verbatim>\<open>isNaN\<close> and calls \<^verbatim>\<open>toFixed\<close>, and none of
  these tells the two zeros apart.
\<close>

datatype number = NaN | Fin real | PosInf | NegInf

definition isNaN :: "number \<Rightarrow> bool" where
  "isNaN x = (x = NaN)"

fun negate :: "number \<Rightarrow> number" where
  "negate NaN = NaN"
| "negate (Fin q) = Fin (- q)"
| "negate PosInf = NegInf"
| "negate NegInf = PosInf"

text \<open>The relational operators \<^verbatim>\<open><=\<close> and \<^verbatim>\<open>>=\<close>: false whenever an operand is NaN.\<close>

fun jsLe :: "number \<Rightarrow> number \<Rightarrow> bool" where
  "jsLe NaN _ = False"
| "jsLe _ NaN = False"
| "jsLe NegInf _ = True"
| "jsLe _ PosInf = True"
| "jsLe (Fin a) (Fin b) = (a \<le> b)"
| "jsLe PosInf _ = False"
| "jsLe _ NegInf = False"

definition jsGe :: "number \<Rightarrow> number \<Rightarrow> bool" where
  "jsGe x y = jsLe y x"

subsubsection \<open>Rounding a real number to binary64 (round to nearest, ties to even)\<close>

text \<open>
  Integers that can be large are kept as \<open>int\<close>, with the bounds written out; \<open>nat\<close>
  is used for lengths only.
\<close>

function bitLength :: "int \<Rightarrow> int" where
  "bitLength n = (if n \<le> 0 then 0 else 1 + bitLength (n div 2))"
  by pat_completeness auto
termination
  by (relation "measure nat") auto

declare bitLength.simps [simp del]

definition pow2 :: "int \<Rightarrow> real" where
  "pow2 e = (if 0 \<le> e then 2 ^ nat e else 1 / 2 ^ nat (- e))"

text \<open>For \<open>q > 0\<close>: the exponent \<open>e\<close> with \<open>2 ^ e \<le> q < 2 ^ (e + 1)\<close>.\<close>

definition binade :: "real \<Rightarrow> int" where
  "binade q =
     (if 1 \<le> q then bitLength \<lfloor>q\<rfloor> - 1
      else - bitLength (\<lceil>1 / q\<rceil> - 1))"

definition roundHalfEven :: "real \<Rightarrow> int" where
  "roundHalfEven x =
     (let f = \<lfloor>x\<rfloor>; d = x - of_int f
      in if d < 1 / 2 then f
         else if 1 / 2 < d then f + 1
         else if even f then f else f + 1)"

text \<open>
  A positive number is rounded on the grid of its binade (spacing \<open>2 ^ (e - 52)\<close>, and
  \<open>2 ^ (- 1074)\<close> in the subnormal range); a result of \<open>2 ^ 1024\<close> or more overflows.
\<close>

definition roundPos :: "real \<Rightarrow> number" where
  "roundPos q =
     (let e = max (binade q) (- 1022);
          ulp = pow2 (e - 52);
          r = of_int (roundHalfEven (q / ulp)) * ulp
      in if 2 ^ 1024 \<le> r then PosInf else Fin r)"

definition toDouble :: "real \<Rightarrow> number" where
  "toDouble q =
     (if q = 0 then Fin 0
      else if q < 0 then negate (roundPos (- q))
      else roundPos q)"

subsection \<open>Characters and decimal digits\<close>

text \<open>
  A string is a list of code units; the model covers the code units below 256. The
  class \<^verbatim>\<open>\d\<close> is \<^verbatim>\<open>[0-9]\<close>; the class \<^verbatim>\<open>\s\<close> holds, below 256, the tab, the
  line feed, the vertical tab, the form feed, the carriage return, the space and the
  no-break space.
\<close>

definition isDigit :: "char \<Rightarrow> bool" where
  "isDigit c = (c \<in> set ''0123456789'')"

definition isSpace :: "char \<Rightarrow> bool" where
  "isSpace c = (c \<in> {CHR 0x09, CHR 0x0A, CHR 0x0B, CHR 0x0C, CHR 0x0D, CHR 0x20, CHR 0xA0})"

definition digitVal :: "char \<Rightarrow> int" where
  "digitVal c = int (length (takeWhile (\<lambda>d. d \<noteq> c) ''0123456789''))"

definition digitChar :: "int \<Rightarrow> char" where
  "digitChar d = ''0123456789'' ! nat d"

definition digitsVal :: "string \<Rightarrow> int" where
  "digitsVal ds = foldl (\<lambda>acc c. 10 * acc + digitVal c) 0 ds"

text \<open>The decimal digits of a non-negative integer (\<^verbatim>\<open>"0"\<close> for zero).\<close>

function natToString :: "int \<Rightarrow> string" where
  "natToString n =
     (if n < 10 then [digitChar n] else natToString (n div 10) @ [digitChar (n mod 10)])"
  by pat_completeness auto
termination
  by (relation "measure nat") auto

declare natToString.simps [simp del]

subsection \<open>\<^verbatim>\<open>parseFloat\<close>\<close>

text \<open>
  \<^verbatim>\<open>parseFloat\<close> skips leading white space and reads the longest prefix that is a
  \<^verbatim>\<open>StrDecimalLiteral\<close>: an optional sign, then \<^verbatim>\<open>Infinity\<close>, or digits with an
  optional fraction and an optional exponent. With no such prefix the result is NaN.
\<close>

definition pow10 :: "int \<Rightarrow> real" where
  "pow10 e = (if 0 \<le> e then 10 ^ nat e else 1 / 10 ^ nat (- e))"

definition exponentPart :: "string \<Rightarrow> int" where
  "exponentPart r =
     (case r of
        [] \<Rightarrow> 0
      | c # r' \<Rightarrow>
          if c = CHR ''e'' \<or> c = CHR ''E'' then
            (let signed = (r' \<noteq> [] \<and> (hd r' = CHR ''-'' \<or> hd r' = CHR ''+''));
                 ds = takeWhile isDigit (if signed then tl r' else r')
             in if ds = [] then 0
                else if r' \<noteq> [] \<and> hd r' = CHR ''-'' then - digitsVal ds
                else digitsVal ds)
          else 0)"

definition parseFloat :: "string \<Rightarrow> number" where
  "parseFloat input =
     (let t = dropWhile isSpace input;
          neg = (t \<noteq> [] \<and> hd t = CHR ''-'');
          u = (if t \<noteq> [] \<and> (hd t = CHR ''-'' \<or> hd t = CHR ''+'') then tl t else t)
      in if take 8 u = ''Infinity'' then (if neg then NegInf else PosInf)
         else
           (let ip = takeWhile isDigit u;
                r1 = dropWhile isDigit u;
                hasDot = (r1 \<noteq> [] \<and> hd r1 = CHR ''.'');
                fp = (if hasDot then takeWhile isDigit (tl r1) else []);
                r2 = (if hasDot then dropWhile isDigit (tl r1) else r1)
            in if ip = [] \<and> fp = [] then NaN
               else
                 (let mv = (of_int (digitsVal ip) + of_int (digitsVal fp) / 10 ^ length fp)
                             * pow10 (exponentPart r2)
                  in if neg then negate (toDouble mv) else toDouble mv)))"

subsection \<open>\<^verbatim>\<open>Number.prototype.toFixed(2)\<close>\<close>

text \<open>
  For a finite value of magnitude \<open>10 ^ 21\<close> or more, \<^verbatim>\<open>toFixed\<close> returns
  \<^verbatim>\<open>Number::toString\<close>: the shortest digit string \<open>s\<close> (\<open>k\<close> digits) with
  \<open>s * 10 ^ (n - k)\<close> rounding back to the value, printed with an exponent because
  \<open>n > 21\<close>. \<open>n0\<close> is the number of integer digits of the value.
\<close>

definition digitCandidates :: "real \<Rightarrow> nat \<Rightarrow> nat \<Rightarrow> int list" where
  "digitCandidates x n0 k =
     (let u = 10 ^ (n0 - k); s0 = \<lfloor>x / u\<rfloor>
      in filter (\<lambda>s. toDouble (of_int s * u) = Fin x) [s0, s0 + 1])"

definition closestDigits :: "real \<Rightarrow> nat \<Rightarrow> nat \<Rightarrow> int list \<Rightarrow> int option" where
  "closestDigits x n0 k cs =
     (case cs of
        [] \<Rightarrow> None
      | [s] \<Rightarrow> Some s
      | a # b # _ \<Rightarrow>
          (let u = 10 ^ (n0 - k); da = \<bar>of_int a * u - x\<bar>; db = \<bar>of_int b * u - x\<bar>
           in if da < db then Some a else if db < da then Some b
              else if even a then Some a else Some b))"

function shortestDigits :: "real \<Rightarrow> nat \<Rightarrow> nat \<Rightarrow> int \<times> nat" where
  "shortestDigits x n0 k =
     (if n0 \<le> k then (\<lfloor>x\<rfloor>, n0)
      else case closestDigits x n0 k (digitCandidates x n0 k) of
             Some s \<Rightarrow> (s, k)
           | None \<Rightarrow> shortestDigits x n0 (Suc k))"
  by pat_completeness auto
termination
  by (relation "measure (\<lambda>(x, n0, k). n0 - k)") auto

declare shortestDigits.simps [simp del]

definition toStringLarge :: "real \<Rightarrow> string" where
  "toStringLarge x =
     (let n0 = length (natToString \<lfloor>x\<rfloor>);
          (s, k) = shortestDigits x n0 1;
          (ds, n) = (if s = 10 ^ k then (''1'', n0 + 1) else (natToString s, n0))
      in (if length ds = 1 then ds else take 1 ds @ ''.'' @ drop 1 ds)
         @ ''e+'' @ natToString (int n - 1))"

definition toFixed2 :: "number \<Rightarrow> string" where
  "toFixed2 v =
     (case v of
        NaN \<Rightarrow> ''NaN''
      | PosInf \<Rightarrow> ''Infinity''
      | NegInf \<Rightarrow> ''-Infinity''
      | Fin q \<Rightarrow>
          (let s = (if q < 0 then ''-'' else []); x = \<bar>q\<bar>
           in if 10 ^ 21 \<le> x then s @ toStringLarge x
              else
                (let n = \<lfloor>x * 100 + 1 / 2\<rfloor>;
                     m = natToString n;
                     m' = (if length m \<le> 2 then replicate (3 - length m) CHR ''0'' @ m else m);
                     k = length m'
                 in s @ take (k - 2) m' @ ''.'' @ drop (k - 2) m')))"

subsection \<open>\<^verbatim>\<open>extractNumericValue\<close>\<close>

text \<open>\<^verbatim>\<open>text.replace(/[^\d.\s-]/g, ' ').trim()\<close>\<close>

definition keepChar :: "char \<Rightarrow> bool" where
  "keepChar c = (isDigit c \<or> c = CHR ''.'' \<or> isSpace c \<or> c = CHR ''-'')"

definition cleanChars :: "string \<Rightarrow> string" where
  "cleanChars text = map (\<lambda>c. if keepChar c then c else CHR '' '') text"

definition trim :: "string \<Rightarrow> string" where
  "trim s = rev (dropWhile isSpace (rev (dropWhile isSpace s)))"

text \<open>
  One attempt of \<^verbatim>\<open>/-?\d+\.?\d*/\<close> at the start of a string: the matched token and
  the rest. The optional sign is taken when present; if no digit follows it, the
  attempt without the sign starts on the \<^verbatim>\<open>-\<close> and fails too. Once a digit
  is read nothing can fail any more, so the greedy choices stand.
\<close>

definition matchAt :: "string \<Rightarrow> (string \<times> string) option" where
  "matchAt s =
     (let sg = (if s \<noteq> [] \<and> hd s = CHR ''-'' then ''-'' else []);
          r0 = drop (length sg) s;
          ds = takeWhile isDigit r0;
          r1 = dropWhile isDigit r0
      in if ds = [] then None
         else
           (let dot = (if r1 \<noteq> [] \<and> hd r1 = CHR ''.'' then ''.'' else []);
                r2 = drop (length dot) r1
            in Some (sg @ ds @ dot @ takeWhile isDigit r2, dropWhile isDigit r2)))"

lemma matchAt_splits:
  assumes "matchAt s = Some (tok, rest)"
  shows "s = tok @ rest" and "tok \<noteq> []"
proof -
  define sg where "sg = (if s \<noteq> [] \<and> hd s = CHR ''-'' then ''-'' else [])"
  define r0 where "r0 = drop (length sg) s"
  define r1 where "r1 = dropWhile isDigit r0"
  define dot where "dot = (if r1 \<noteq> [] \<and> hd r1 = CHR ''.'' then ''.'' else [])"
  define r2 where "r2 = drop (length dot) r1"
  have ne: "takeWhile isDigit r0 \<noteq> []"
    using assms unfolding matchAt_def Let_def sg_def r0_def by (auto split: if_splits)
  have tok: "tok = sg @ takeWhile isDigit r0 @ dot @ takeWhile isDigit r2"
    and rest: "rest = dropWhile isDigit r2"
    using assms unfolding matchAt_def Let_def sg_def r0_def r1_def dot_def r2_def
    by (auto split: if_splits)
  have s0: "s = sg @ r0"
    unfolding sg_def r0_def by (cases s) auto
  have s1: "r0 = takeWhile isDigit r0 @ r1"
    unfolding r1_def by simp
  have s2: "r1 = dot @ r2"
    unfolding dot_def r2_def by (cases r1) auto
  have s3: "r2 = takeWhile isDigit r2 @ dropWhile isDigit r2"
    by simp
  show "s = tok @ rest"
    unfolding tok rest using s0 s1 s2 s3 by (metis append.assoc)
  show "tok \<noteq> []"
    unfolding tok using ne by simp
qed

text \<open>
  \<^verbatim>\<open>cleanText.match(/-?\d+\.?\d*/g)\<close>: the matches from left to right, each search
  starting where the previous match ended; \<^verbatim>\<open>null\<close> when there is none.
\<close>

function scanTokens :: "string \<Rightarrow> string list" where
  "scanTokens [] = []"
| "scanTokens (c # cs) =
     (case matchAt (c # cs) of
        Some (tok, rest) \<Rightarrow> tok # scanTokens rest
      | None \<Rightarrow> scanTokens cs)"
  by pat_completeness auto
termination
proof (relation "measure length")
  show "wf (measure length)" by simp
next
  fix c cs x2 x y
  assume "matchAt (c # cs) = Some x2" and "(x, y) = x2"
  then have "matchAt (c # cs) = Some (x, y)" by simp
  from matchAt_splits [OF this] have "length y < length (c # cs)"
    by (metis length_append length_greater_0_conv less_add_same_cancel2)
  then show "(y, c # cs) \<in> measure length" by simp
next
  fix c cs
  show "(cs, c # cs) \<in> measure length" by simp
qed

definition matchNumbers :: "string \<Rightarrow> string list option" where
  "matchNumbers s = (case scanTokens s of [] \<Rightarrow> None | t # ts \<Rightarrow> Some (t # ts))"

text \<open>
  \<^verbatim>\<open>xs[0]\<close> is \<^verbatim>\<open>undefined\<close> on an empty array, and calling \<^verbatim>\<open>toFixed\<close> on
  \<^verbatim>\<open>undefined\<close> throws a TypeError.
\<close>

datatype jsError = TypeError | ExternalError string

definition first :: "'a list \<Rightarrow> 'a option" where
  "first xs = (case xs of [] \<Rightarrow> None | x # _ \<Rightarrow> Some x)"

definition preferInRange :: "real \<Rightarrow> real \<Rightarrow> number list \<Rightarrow> number option" where
  "preferInRange lo hi validNumbers =
     (let values = filter (\<lambda>n. jsGe n (Fin lo) \<and> jsLe n (Fin hi)) validNumbers
      in if length values > 0 then first values else first validNumbers)"

definition selectValue :: "string \<Rightarrow> number list \<Rightarrow> number option" where
  "selectValue parameter validNumbers =
     (if parameter = ''pH'' then preferInRange 0 14 validNumbers
      else if parameter = ''temperature'' then preferInRange (- 10) 60 validNumbers
      else if parameter = ''dissolvedOxygen'' then preferInRange 0 25 validNumbers
      else if parameter = ''salinity'' then preferInRange 0 50 validNumbers
      else first validNumbers)"

definition extractNumericValue :: "string \<Rightarrow> string \<Rightarrow> jsError + string" where
  "extractNumericValue text parameter =
     (let cleanText = trim (cleanChars text)
      in case matchNumbers cleanText of
           None \<Rightarrow> Inr ''0.00''
         | Some numbers \<Rightarrow>
             if length numbers = 0 then Inr ''0.00''
             else
               (let validNumbers = filter (\<lambda>n. \<not> isNaN n) (map parseFloat numbers)
                in if length validNumbers = 0 then Inr ''0.00''
                   else case selectValue parameter validNumbers of
                          None \<Rightarrow> Inl TypeError
                        | Some selectedValue \<Rightarrow> Inr (toFixed2 selectedValue)))"

subsection \<open>\<^verbatim>\<open>processImage\<close>\<close>

text \<open>
  A region as \<^verbatim>\<open>sharp.extract\<close> takes it; the fields are \<^verbatim>\<open>left\<close>, \<^verbatim>\<open>top\<close>,
  \<^verbatim>\<open>width\<close> and \<^verbatim>\<open>height\<close>. The image dimensions are integers, so
  \<^verbatim>\<open>Math.floor(width / 2)\<close> is \<open>width div 2\<close>, which rounds towards minus infinity as
  \<^verbatim>\<open>Math.floor\<close> does.
\<close>

record region =
  r_left :: int
  r_top :: int
  r_width :: int
  r_height :: int

text \<open>The object literal \<^verbatim>\<open>quadrants\<close>, in the order \<^verbatim>\<open>Object.entries\<close> lists it.\<close>

definition quadrants :: "int \<Rightarrow> int \<Rightarrow> (string \<times> region) list" where
  "quadrants width height =
     (let halfWidth = width div 2; halfHeight = height div 2
      in [(''temperature'',
            \<lparr>r_left = halfWidth, r_top = 0, r_width = halfWidth, r_height = halfHeight\<rparr>),
          (''pH'',
            \<lparr>r_left = 0, r_top = 0, r_width = halfWidth, r_height = halfHeight\<rparr>),
          (''dissolvedOxygen'',
            \<lparr>r_left = 0, r_top = halfHeight, r_width = halfWidth, r_height = halfHeight\<rparr>),
          (''salinity'',
            \<lparr>r_left = halfWidth, r_top = halfHeight, r_width = halfWidth,
             r_height = halfHeight\<rparr>)])"

text \<open>
  The three preprocessing strategies, and what the OCR engine returns
  (\<^verbatim>\<open>result.data.text\<close>, \<^verbatim>\<open>result.data.confidence\<close>).
\<close>

datatype strategy = Basic | Contrast | Threshold

record observation =
  data_text :: string
  data_confidence :: real

text \<open>
  The external collaborators: reading the file and its metadata, the \<^verbatim>\<open>sharp\<close>
  pipeline of a strategy on a region, and \<^verbatim>\<open>Tesseract.recognize\<close>. Each call either
  throws or returns; the calls are indexed by the parameter whose pipeline makes them,
  so that one pipeline can fail where another, on the same data, does not. Buffers are
  of an arbitrary type \<open>'b\<close>.
\<close>

record 'b services =
  metadata :: "jsError + int \<times> int"
  preprocess :: "string \<Rightarrow> strategy \<Rightarrow> region \<Rightarrow> jsError + 'b"
  recognize :: "string \<Rightarrow> strategy \<Rightarrow> 'b \<Rightarrow> jsError + observation"

text \<open>
  The loop over the OCR results of one quadrant, with its two variables
  \<^verbatim>\<open>bestValue\<close> and \<^verbatim>\<open>bestConfidence\<close>.
\<close>

fun selectBest ::
  "string \<Rightarrow> string \<times> real \<Rightarrow> observation list \<Rightarrow> jsError + string \<times> real" where
  "selectBest parameter best [] = Inr best"
| "selectBest parameter (bestValue, bestConfidence) (result # results) =
     (case extractNumericValue (data_text result) parameter of
        Inl e \<Rightarrow> Inl e
      | Inr numericValue \<Rightarrow>
          if numericValue \<noteq> ''0.00'' \<and> data_confidence result > bestConfidence
          then selectBest parameter (numericValue, data_confidence result) results
          else if bestValue = ''0.00'' \<and> numericValue \<noteq> ''0.00''
          then selectBest parameter (numericValue, data_confidence result) results
          else selectBest parameter (bestValue, bestConfidence) results)"

text \<open>
  The body of one quadrant's task: any exception inside the \<^verbatim>\<open>try\<close> block ends in
  the \<^verbatim>\<open>catch\<close>, which stores \<^verbatim>\<open>"0.00"\<close>.
\<close>

definition processQuadrant :: "'b services \<Rightarrow> string \<Rightarrow> region \<Rightarrow> string" where
  "processQuadrant sv parameter coordinates =
     (case preprocess sv parameter Basic coordinates of
        Inl e \<Rightarrow> ''0.00''
      | Inr basicBuffer \<Rightarrow>
     (case preprocess sv parameter Contrast coordinates of
        Inl e \<Rightarrow> ''0.00''
      | Inr contrastBuffer \<Rightarrow>
     (case preprocess sv parameter Threshold coordinates of
        Inl e \<Rightarrow> ''0.00''
      | Inr thresholdBuffer \<Rightarrow>
     (case recognize sv parameter Basic basicBuffer of
        Inl e \<Rightarrow> ''0.00''
      | Inr r1 \<Rightarrow>
     (case recognize sv parameter Contrast contrastBuffer of
        Inl e \<Rightarrow> ''0.00''
      | Inr r2 \<Rightarrow>
     (case recognize sv parameter Threshold thresholdBuffer of
        Inl e \<Rightarrow> ''0.00''
      | Inr r3 \<Rightarrow>
     (case selectBest parameter (''0.00'', 0) [r1, r2, r3] of
        Inl e \<Rightarrow> ''0.00''
      | Inr (bestValue, bestConfidence) \<Rightarrow> bestValue)))))))"

text \<open>
  Each task writes its own key of \<^verbatim>\<open>results\<close> when it finishes. \<open>assemble\<close> performs
  the writes of a list of tasks in the order of the list; \<^verbatim>\<open>processImage\<close> is the
  source order, and any other order of completion is a permutation of it.
\<close>

definition assemble ::
  "'b services \<Rightarrow> (string \<times> region) list \<Rightarrow> (string \<rightharpoonup> string)" where
  "assemble sv tasks =
     foldl (\<lambda>results (parameter, coordinates).
              results(parameter \<mapsto> processQuadrant sv parameter coordinates))
       Map.empty tasks"

definition processImage :: "'b services \<Rightarrow> jsError + (string \<rightharpoonup> string)" where
  "processImage sv =
     (case metadata sv of
        Inl error \<Rightarrow> Inl error
      | Inr (width, height) \<Rightarrow> Inr (assemble sv (quadrants width height)))"

subsection \<open>The vocabulary of the specification\<close>

text \<open>The closed set of parameters, the key of each, and the valid range of each.\<close>

datatype Parameter = PH | Temperature | DissolvedOxygen | Salinity

fun paramName :: "Parameter \<Rightarrow> string" where
  "paramName PH = ''pH''"
| "paramName Temperature = ''temperature''"
| "paramName DissolvedOxygen = ''dissolvedOxygen''"
| "paramName Salinity = ''salinity''"

fun validRange :: "Parameter \<Rightarrow> real \<times> real" where
  "validRange PH = (0, 14)"
| "validRange Temperature = (- 10, 60)"
| "validRange DissolvedOxygen = (0, 25)"
| "validRange Salinity = (0, 50)"

definition inValidRange :: "Parameter \<Rightarrow> number \<Rightarrow> bool" where
  "inValidRange p v =
     (case v of Fin x \<Rightarrow> fst (validRange p) \<le> x \<and> x \<le> snd (validRange p) | _ \<Rightarrow> False)"

text \<open>The pixels of a region, and the pixels of an image of a given size.\<close>

definition pixels :: "region \<Rightarrow> (int \<times> int) set" where
  "pixels r =
     {(x, y). r_left r \<le> x \<and> x < r_left r + r_width r \<and> r_top r \<le> y \<and> y < r_top r + r_height r}"

definition imagePixels :: "int \<Rightarrow> int \<Rightarrow> (int \<times> int) set" where
  "imagePixels width height = {(x, y). 0 \<le> x \<and> x < width \<and> 0 \<le> y \<and> y < height}"

text \<open>
  A string with exactly two fractional digits: an optional minus sign, at least one
  digit, the decimal point, two digits.
\<close>

definition twoFractionDigits :: "string \<Rightarrow> bool" where
  "twoFractionDigits s =
     (let u = (if s \<noteq> [] \<and> hd s = CHR ''-'' then tl s else s);
          n = length u
      in 4 \<le> n \<and> u ! (n - 3) = CHR ''.''
         \<and> (\<forall>i<n. i \<noteq> n - 3 \<longrightarrow> isDigit (u ! i)))"

text \<open>
  The variants of a parameter whose extraction is a string other than the placeholder
  \<^verbatim>\<open>"0.00"\<close>, each with the confidence of its observation, in scan order.
\<close>

definition validCandidates :: "string \<Rightarrow> observation list \<Rightarrow> (string \<times> real) list" where
  "validCandidates parameter results =
     concat (map (\<lambda>result.
                    case extractNumericValue (data_text result) parameter of
                      Inr v \<Rightarrow> if v \<noteq> ''0.00'' then [(v, data_confidence result)] else []
                    | Inl e \<Rightarrow> [])
               results)"

text \<open>
  The candidate of highest confidence, the earliest one among equals: a later candidate
  replaces the current one only with a strictly higher confidence.
\<close>

fun firstMax :: "string \<times> real \<Rightarrow> (string \<times> real) list \<Rightarrow> string \<times> real" where
  "firstMax best [] = best"
| "firstMax best (x # xs) = (if snd best < snd x then firstMax x xs else firstMax best xs)"

text \<open>
  A pipeline fails when one of its three preprocessing calls throws, or when
  recognition throws on one of the buffers they produced.
\<close>

definition pipelineFails :: "'b services \<Rightarrow> string \<Rightarrow> region \<Rightarrow> bool" where
  "pipelineFails sv parameter coordinates =
     (\<exists>s. isl (preprocess sv parameter s coordinates)
          \<or> (case preprocess sv parameter s coordinates of
                Inr b \<Rightarrow> isl (recognize sv parameter s b)
              | Inl e \<Rightarrow> False))"

text \<open>
  Services for an image whose decoder reports the given size and whose every extraction
  is rejected, as the image library does for an empty extract area.
\<close>

definition rejectingServices :: "int \<Rightarrow> int \<Rightarrow> unit services" where
  "rejectingServices w h =
     \<lparr>metadata = Inr (w, h),
      preprocess = (\<lambda>parameter s coordinates. Inl (ExternalError ''bad extract area'')),
      recognize = (\<lambda>parameter s buffer. Inl (ExternalError ''no buffer''))\<rparr>"

text \<open>
  Services for a decoded image of 400 by 400 on which every call of the \<^verbatim>\<open>pH\<close>
  pipeline to the image library throws, while the other pipelines get a buffer (here
  the name of the parameter) and the OCR engine reads \<^verbatim>\<open>"7.4"\<close> with confidence 80.
\<close>

definition sampleServices :: "string services" where
  "sampleServices =
     \<lparr>metadata = Inr (400, 400),
      preprocess = (\<lambda>parameter s coordinates.
         if parameter = ''pH'' then Inl (ExternalError ''extract failed'') else Inr parameter),
      recognize = (\<lambda>parameter s buffer.
         Inr \<lparr>data_text = ''7.4'', data_confidence = 80\<rparr>)\<rparr>"

section \<open>Properties of candidate extraction\<close>

subsection \<open>Tokens always parse\<close>

lemma roundPos_not_NaN: "roundPos q \<noteq> NaN"
  by (simp add: roundPos_def Let_def)

lemma toDouble_not_NaN: "toDouble q \<noteq> NaN"
proof -
  have "negate v \<noteq> NaN" if "v \<noteq> NaN" for v
    using that by (cases v) simp_all
  then show ?thesis
    by (simp add: toDouble_def roundPos_not_NaN)
qed

lemma negate_not_NaN: "v \<noteq> NaN \<Longrightarrow> negate v \<noteq> NaN"
  by (cases v) simp_all

lemma digit_not_space: "isDigit c \<Longrightarrow> \<not> isSpace c"
  by (auto simp: isDigit_def isSpace_def)

lemma digit_not_sign: "isDigit c \<Longrightarrow> c \<noteq> CHR ''-'' \<and> c \<noteq> CHR ''+'' \<and> c \<noteq> CHR ''I''"
  by (auto simp: isDigit_def)

lemma parseFloat_digits:
  assumes "isDigit c"
  shows "parseFloat (c # cs) \<noteq> NaN"
  using assms digit_not_space [OF assms] digit_not_sign [OF assms]
  by (auto simp: parseFloat_def Let_def toDouble_not_NaN negate_not_NaN)

lemma parseFloat_minus_digits:
  assumes "isDigit c"
  shows "parseFloat (CHR ''-'' # c # cs) \<noteq> NaN"
  using assms digit_not_sign [OF assms]
  by (auto simp: parseFloat_def Let_def isSpace_def toDouble_not_NaN negate_not_NaN)

lemma matchAt_head:
  assumes "matchAt s = Some (tok, rest)"
  shows "\<exists>c cs. isDigit c \<and> (tok = c # cs \<or> tok = CHR ''-'' # c # cs)"
proof -
  define sg where "sg = (if s \<noteq> [] \<and> hd s = CHR ''-'' then ''-'' else [])"
  define r0 where "r0 = drop (length sg) s"
  have ne: "takeWhile isDigit r0 \<noteq> []"
    using assms unfolding matchAt_def Let_def sg_def r0_def by (auto split: if_splits)
  then obtain c ds where ds: "takeWhile isDigit r0 = c # ds"
    by (cases "takeWhile isDigit r0") auto
  then have "c \<in> set (takeWhile isDigit r0)" by simp
  then have c: "isDigit c" by (rule set_takeWhileD [THEN conjunct2])
  obtain tl' where "tok = sg @ c # tl'"
    using assms ds unfolding matchAt_def Let_def sg_def r0_def by (auto split: if_splits)
  then show ?thesis
    using c unfolding sg_def by (auto split: if_splits)
qed

lemma scanTokens_matched:
  "t \<in> set (scanTokens s) \<Longrightarrow> \<exists>s' rest. matchAt s' = Some (t, rest)"
proof (induction s rule: scanTokens.induct)
  case 1
  then show ?case by simp
next
  case (2 c cs)
  show ?case
  proof (cases "matchAt (c # cs)")
    case None
    with 2 show ?thesis by simp
  next
    case (Some a)
    obtain tok rest where a: "a = (tok, rest)" by (cases a)
    with 2 Some show ?thesis by auto
  qed
qed

lemma token_parses: "t \<in> set (scanTokens s) \<Longrightarrow> parseFloat t \<noteq> NaN"
  using scanTokens_matched matchAt_head parseFloat_digits parseFloat_minus_digits
  by metis

lemma validNumbers_all:
  "filter (\<lambda>n. \<not> isNaN n) (map parseFloat (scanTokens s)) = map parseFloat (scanTokens s)"
  by (simp add: isNaN_def token_parses)

lemma first_Some: "xs \<noteq> [] \<Longrightarrow> first xs = Some (hd xs)"
  by (cases xs) (simp_all add: first_def)

lemma preferInRange_find:
  assumes "vs \<noteq> []"
  shows "preferInRange lo hi vs =
    Some (case find (\<lambda>n. jsGe n (Fin lo) \<and> jsLe n (Fin hi)) vs of Some v \<Rightarrow> v | None \<Rightarrow> hd vs)"
proof (cases "filter (\<lambda>n. jsGe n (Fin lo) \<and> jsLe n (Fin hi)) vs")
  case Nil
  then have "find (\<lambda>n. jsGe n (Fin lo) \<and> jsLe n (Fin hi)) vs = None"
    by (simp add: find_None_iff filter_empty_conv)
  with Nil assms show ?thesis
    by (simp add: preferInRange_def first_Some)
next
  case (Cons a as)
  then have "find (\<lambda>n. jsGe n (Fin lo) \<and> jsLe n (Fin hi)) vs = Some a"
    by (induction vs) (auto split: if_splits)
  with Cons show ?thesis
    by (simp add: preferInRange_def first_def)
qed

lemma selectValue_defined:
  assumes "vs \<noteq> []"
  shows "\<exists>v \<in> set vs. selectValue parameter vs = Some v"
proof -
  have a: "\<exists>v \<in> set vs. preferInRange lo hi vs = Some v" for lo hi
  proof -
    have "(case find P vs of Some v \<Rightarrow> v | None \<Rightarrow> hd vs) \<in> set vs" for P :: "number \<Rightarrow> bool"
      using assms by (auto split: option.splits simp: find_Some_iff)
    then show ?thesis
      using preferInRange_find [OF assms] by simp
  qed
  have b: "\<exists>v \<in> set vs. first vs = Some v"
    using assms by (simp add: first_Some)
  show ?thesis
    unfolding selectValue_def using a b by simp
qed

lemma extractNumericValue_no_token:
  assumes "scanTokens (trim (cleanChars text)) = []"
  shows "extractNumericValue text parameter = Inr ''0.00''"
  using assms by (simp add: extractNumericValue_def matchNumbers_def)

lemma extractNumericValue_tokens:
  assumes "scanTokens (trim (cleanChars text)) = t # ts"
  shows "\<exists>v \<in> set (map parseFloat (t # ts)).
           selectValue parameter (map parseFloat (t # ts)) = Some v
           \<and> v \<noteq> NaN
           \<and> extractNumericValue text parameter = Inr (toFixed2 v)"
proof -
  have valid: "filter (\<lambda>n. \<not> isNaN n) (map parseFloat (t # ts)) = map parseFloat (t # ts)"
    using validNumbers_all [of "trim (cleanChars text)"] assms by simp
  obtain v where v: "v \<in> set (map parseFloat (t # ts))"
    and sel: "selectValue parameter (map parseFloat (t # ts)) = Some v"
    using selectValue_defined [of "map parseFloat (t # ts)" parameter] by auto
  from v obtain x where "x \<in> set (t # ts)" and "v = parseFloat x"
    by auto
  then have "v \<noteq> NaN"
    using token_parses [of x "trim (cleanChars text)"] assms by simp
  moreover have "extractNumericValue text parameter = Inr (toFixed2 v)"
    unfolding extractNumericValue_def Let_def matchNumbers_def assms
    using sel valid by simp
  ultimately show ?thesis using v sel by blast
qed

lemma extractNumericValue_total:
  "\<exists>r. extractNumericValue text parameter = Inr r"
proof (cases "scanTokens (trim (cleanChars text))")
  case Nil
  then show ?thesis by (simp add: extractNumericValue_no_token)
next
  case (Cons t ts)
  from extractNumericValue_tokens [OF this] show ?thesis by blast
qed

subsection \<open>Evaluating the recursive functions on literals\<close>

text \<open>
  Each recursive equation, split by its test, unfolds exactly as far as a literal
  argument allows.
\<close>

lemma bitLength_nonpos: "n \<le> 0 \<Longrightarrow> bitLength n = 0"
  by (subst bitLength.simps) simp
lemma bitLength_pos: "0 < n \<Longrightarrow> bitLength n = 1 + bitLength (n div 2)"
  by (subst bitLength.simps) simp
lemma natToString_small: "n < 10 \<Longrightarrow> natToString n = [digitChar n]"
  by (subst natToString.simps) simp
lemma natToString_large:
  "10 \<le> n \<Longrightarrow> natToString n = natToString (n div 10) @ [digitChar (n mod 10)]"
  by (subst natToString.simps) simp
lemma shortestDigits_found:
  "k < n0 \<Longrightarrow> closestDigits x n0 k (digitCandidates x n0 k) = Some s
    \<Longrightarrow> shortestDigits x n0 k = (s, k)"
  by (subst shortestDigits.simps) simp
lemma shortestDigits_next:
  "k < n0 \<Longrightarrow> closestDigits x n0 k (digitCandidates x n0 k) = None
    \<Longrightarrow> shortestDigits x n0 k = shortestDigits x n0 (Suc k)"
  by (subst shortestDigits.simps) simp

lemmas scan_eval = trim_def cleanChars_def keepChar_def isDigit_def isSpace_def matchAt_def
lemmas parse_eval = parseFloat_def isSpace_def isDigit_def exponentPart_def digitsVal_def
  digitVal_def pow10_def toDouble_def roundPos_def binade_def bitLength_pos bitLength_nonpos
  pow2_def roundHalfEven_def Let_def
lemmas format_eval = toFixed2_def natToString_small natToString_large digitChar_def Let_def
lemmas select_eval = extractNumericValue_def matchNumbers_def isNaN_def selectValue_def
  preferInRange_def first_def jsGe_def Let_def

subsection \<open>The shape of a formatted value\<close>

lemma digitChar_digit: "0 \<le> d \<Longrightarrow> d < 10 \<Longrightarrow> isDigit (digitChar d)"
proof -
  assume "0 \<le> d" and "d < 10"
  then have "nat d < length ''0123456789''" by simp
  then have "''0123456789'' ! nat d \<in> set ''0123456789''" by (rule nth_mem)
  then show ?thesis by (simp only: digitChar_def isDigit_def)
qed

lemma natToString_digits:
  "0 \<le> n \<Longrightarrow> natToString n \<noteq> [] \<and> (\<forall>c \<in> set (natToString n). isDigit c)"
proof (induction n rule: natToString.induct)
  case (1 n)
  show ?case
  proof (cases "n < 10")
    case True
    with 1 show ?thesis
      by (simp add: natToString_small digitChar_digit)
  next
    case False
    then have "0 \<le> n div 10" by simp
    with 1 False have "\<forall>c \<in> set (natToString (n div 10)). isDigit c" by simp
    moreover have "isDigit (digitChar (n mod 10))"
      by (rule digitChar_digit) simp_all
    ultimately show ?thesis
      using False by (simp add: natToString_large)
  qed
qed

lemma twoFractionDigits_shape:
  assumes "as \<noteq> []" and "\<forall>c \<in> set as. isDigit c" and "isDigit d1" and "isDigit d2"
    and "sg = [] \<or> sg = ''-''"
  shows "twoFractionDigits (sg @ as @ ''.'' @ [d1, d2])"
proof -
  have hd: "hd as \<noteq> CHR ''-''"
    using assms(1,2) digit_not_sign [of "hd as"] by (cases as) auto
  have u: "(if sg @ as @ ''.'' @ [d1, d2] \<noteq> [] \<and> hd (sg @ as @ ''.'' @ [d1, d2]) = CHR ''-''
            then tl (sg @ as @ ''.'' @ [d1, d2]) else sg @ as @ ''.'' @ [d1, d2])
           = as @ ''.'' @ [d1, d2]"
    using assms(1,5) hd by (cases as) auto
  have len: "length (as @ ''.'' @ [d1, d2]) = length as + 3" by simp
  have dot: "(as @ ''.'' @ [d1, d2]) ! length as = CHR ''.''"
    by (simp add: nth_append)
  have digs: "isDigit ((as @ ''.'' @ [d1, d2]) ! i)" if "i < length as + 3" and "i \<noteq> length as" for i
  proof (cases "i < length as")
    case True
    then show ?thesis using assms(2) by (simp add: nth_append)
  next
    case False
    with that have "i = length as + 1 \<or> i = length as + 2" by arith
    then show ?thesis using assms(3,4) by (auto simp: nth_append)
  qed
  have "1 \<le> length as" using assms(1) by (cases as) simp_all
  then show ?thesis
    unfolding twoFractionDigits_def Let_def u len using dot digs by simp
qed

lemma toFixed2_small:
  assumes "\<bar>q\<bar> < 10 ^ 21"
  shows "twoFractionDigits (toFixed2 (Fin q))"
proof -
  define n where "n = \<lfloor>\<bar>q\<bar> * 100 + 1 / 2\<rfloor>"
  define m where "m = natToString n"
  define m' where "m' = (if length m \<le> 2 then replicate (3 - length m) CHR ''0'' @ m else m)"
  define sg where "sg = (if q < 0 then ''-'' else [])"
  have n0: "0 \<le> n" unfolding n_def by simp
  from natToString_digits [OF n0] have m: "m \<noteq> []" "\<forall>c \<in> set m. isDigit c"
    unfolding m_def by simp_all
  have zero: "isDigit CHR ''0''" by (simp add: isDigit_def)
  have m'd: "\<forall>c \<in> set m'. isDigit c"
    unfolding m'_def using m(2) zero by auto
  have m'l: "3 \<le> length m'"
    unfolding m'_def by auto
  define as where "as = take (length m' - 2) m'"
  define bs where "bs = drop (length m' - 2) m'"
  have "length bs = 2" unfolding bs_def using m'l by simp
  then obtain d1 d2 where bs: "bs = [d1, d2]"
    by (cases bs; cases "tl bs"; cases "tl (tl bs)") auto
  have "set bs \<subseteq> set m'" unfolding bs_def by (rule set_drop_subset)
  with bs m'd have d: "isDigit d1" "isDigit d2" by auto
  have "set as \<subseteq> set m'" unfolding as_def by (rule set_take_subset)
  with m'd have asd: "\<forall>c \<in> set as. isDigit c" by auto
  have asn: "as \<noteq> []" unfolding as_def using m'l by auto
  have "toFixed2 (Fin q) = sg @ as @ ''.'' @ bs"
    using assms unfolding toFixed2_def Let_def sg_def as_def bs_def m'_def m_def n_def
    by simp
  moreover have "sg = [] \<or> sg = ''-''" unfolding sg_def by simp
  ultimately show ?thesis
    using twoFractionDigits_shape [OF asn asd d] bs by simp
qed

lemma toStringLarge_exponent: "CHR ''e'' \<in> set (toStringLarge x)"
  by (simp add: toStringLarge_def Let_def split_beta)

lemma toFixed2_not_NaN_string:
  assumes "v \<noteq> NaN"
  shows "toFixed2 v \<noteq> ''NaN''"
proof (cases v)
  case (Fin q)
  have "CHR ''.'' \<in> set (toFixed2 (Fin q)) \<or> CHR ''e'' \<in> set (toFixed2 (Fin q))"
  proof (cases "10 ^ 21 \<le> \<bar>q\<bar>")
    case True
    then show ?thesis
      using toStringLarge_exponent [of "\<bar>q\<bar>"] by (simp add: toFixed2_def Let_def)
  next
    case False
    then show ?thesis
      by (simp add: toFixed2_def Let_def)
  qed
  moreover have "CHR ''.'' \<notin> set ''NaN''" and "CHR ''e'' \<notin> set ''NaN''" by simp_all
  ultimately show ?thesis using Fin by metis
qed (use assms in \<open>simp_all add: toFixed2_def\<close>)

subsection \<open>Worked extractions\<close>

lemma extract_pH_7_4: "extractNumericValue ''pH 7.4'' ''pH'' = Inr ''7.40''"
  by (simp add: select_eval scan_eval parse_eval format_eval)

lemma extract_143: "extractNumericValue ''143'' ''pH'' = Inr ''143.00''"
  by (simp add: select_eval scan_eval parse_eval format_eval)

lemma extract_zero: "extractNumericValue ''0'' parameter = Inr ''0.00''"
  by (simp add: select_eval scan_eval parse_eval format_eval)

lemma extract_22_5: "extractNumericValue ''22.5'' ''temperature'' = Inr ''22.50''"
  by (simp add: select_eval scan_eval parse_eval format_eval)

lemma extract_minus_3: "extractNumericValue ''-3.0'' ''temperature'' = Inr ''-3.00''"
  by (simp add: select_eval scan_eval parse_eval format_eval)

lemma extract_6_8: "extractNumericValue ''6.8'' ''pH'' = Inr ''6.80''"
  by (simp add: select_eval scan_eval parse_eval format_eval)

lemma extract_5: "extractNumericValue ''5'' ''pH'' = Inr ''5.00''"
  by (simp add: select_eval scan_eval parse_eval format_eval)

lemma scan_abc: "scanTokens (trim (cleanChars ''abc'')) = []"
  by (simp add: scan_eval)

lemma scan_empty: "scanTokens (trim (cleanChars [])) = []"
  by (simp add: scan_eval)

lemma scan_zero: "scanTokens (trim (cleanChars ''0'')) = [''0'']"
  by (simp add: scan_eval)

lemma scan_pH_7_4: "scanTokens (trim (cleanChars ''pH 7.4'')) = [''7.4'']"
  by (simp add: scan_eval)

lemma parse_zero: "parseFloat ''0'' = Fin 0"
  by (simp add: parse_eval)

lemma toFixed2_zero: "toFixed2 (Fin 0) = ''0.00''"
  by (simp add: format_eval)

text \<open>The text of twenty-two digits that reads \<open>10 ^ 21\<close>.\<close>

lemma scan_1e21:
  "scanTokens (trim (cleanChars ''1000000000000000000000'')) = [''1000000000000000000000'']"
  by (simp add: scan_eval)

lemma parse_1e21: "parseFloat ''1000000000000000000000'' = Fin 1000000000000000000000"
  by (simp add: parse_eval)

lemma length_1e21: "length (natToString 1000000000000000000000) = 22"
  by (simp add: natToString_small natToString_large)

lemma toDouble_1e21:
  "toDouble 1000000000000000000000 = Fin 1000000000000000000000"
  "toDouble 2000000000000000000000 \<noteq> Fin 1000000000000000000000"
  by (simp_all add: parse_eval)

lemma closestDigits_1e21:
  "closestDigits 1000000000000000000000 22 (Suc 0)
     (digitCandidates 1000000000000000000000 22 (Suc 0)) = Some 1"
  using toDouble_1e21 by (simp add: digitCandidates_def closestDigits_def)

lemma shortestDigits_1e21: "shortestDigits 1000000000000000000000 22 (Suc 0) = (1, Suc 0)"
  using shortestDigits_found [OF _ closestDigits_1e21] by simp

lemma toStringLarge_1e21: "toStringLarge 1000000000000000000000 = ''1e+21''"
  apply (simp add: toStringLarge_def length_1e21 shortestDigits_1e21)
  apply (simp add: natToString_small natToString_large digitChar_def)
  done

lemma toFixed2_1e21: "toFixed2 (Fin 1000000000000000000000) = ''1e+21''"
  by (simp add: toFixed2_def toStringLarge_1e21)

lemma extract_1e21: "extractNumericValue ''1000000000000000000000'' ''pH'' = Inr ''1e+21''"
  by (simp add: select_eval scan_1e21 parse_1e21 toFixed2_1e21)

subsection \<open>Texts without a digit\<close>

lemma scanTokens_no_digit: "\<forall>c \<in> set s. \<not> isDigit c \<Longrightarrow> scanTokens s = []"
proof (induction s rule: scanTokens.induct)
  case 1
  then show ?case by simp
next
  case (2 c cs)
  have "matchAt (c # cs) = None"
  proof (cases "matchAt (c # cs)")
    case (Some a)
    obtain tok rest where a: "a = (tok, rest)" by (cases a)
    from matchAt_head [of "c # cs" tok rest] Some a
    obtain d ds where d: "isDigit d" and tok: "tok = d # ds \<or> tok = CHR ''-'' # d # ds"
      by auto
    from matchAt_splits(1) [of "c # cs" tok rest] Some a have "c # cs = tok @ rest" by simp
    with tok have "d \<in> set (c # cs)" by auto
    with 2(3) d show ?thesis by blast
  qed simp
  with 2 show ?case by simp
qed

lemma clean_no_digit:
  assumes "\<forall>c \<in> set text. \<not> isDigit c"
  shows "\<forall>c \<in> set (trim (cleanChars text)). \<not> isDigit c"
proof -
  have sp: "\<not> isDigit CHR '' ''" by (simp add: isDigit_def)
  have "\<forall>c \<in> set (cleanChars text). \<not> isDigit c"
    using assms sp by (auto simp: cleanChars_def)
  moreover have "set (trim s) \<subseteq> set s" for s
  proof
    fix x
    assume "x \<in> set (trim s)"
    then have "x \<in> set (dropWhile isSpace (rev (dropWhile isSpace s)))"
      by (simp add: trim_def)
    then have "x \<in> set (rev (dropWhile isSpace s))" by (rule set_dropWhileD)
    then have "x \<in> set (dropWhile isSpace s)" by simp
    then show "x \<in> set s" by (rule set_dropWhileD)
  qed
  ultimately show ?thesis by blast
qed

section \<open>Claims about candidate extraction\<close>

text \<open>
  Claim C1, as amended. When no numeric token survives cleaning and scanning, and in
  particular when the text holds no digit, \<^verbatim>\<open>extractNumericValue\<close> returns the
  placeholder string \<^verbatim>\<open>"0.00"\<close>, whatever the parameter; this is the very string
  that a reading of zero is rendered as.
\<close>

theorem no_token_gives_placeholder:
  "(scanTokens (trim (cleanChars text)) = [] \<longrightarrow>
      extractNumericValue text parameter = Inr ''0.00'')
   \<and> ((\<forall>c \<in> set text. \<not> isDigit c) \<longrightarrow> extractNumericValue text parameter = Inr ''0.00'')
   \<and> extractNumericValue ''0'' parameter = Inr ''0.00''"
  using extractNumericValue_no_token scanTokens_no_digit clean_no_digit extract_zero
  by blast

theorem no_token_gives_placeholder_witness:
  "\<not> isDigit CHR ''a'' \<and> \<not> isDigit CHR ''b'' \<and> \<not> isDigit CHR ''c''
   \<and> scanTokens (trim (cleanChars ''abc'')) = []
   \<and> extractNumericValue ''abc'' ''pH'' = Inr ''0.00''"
  using no_token_gives_placeholder [of "''abc''" "''pH''"]
  by (simp add: scan_abc isDigit_def)

text \<open>
  The claim as stated fails: the text \<^verbatim>\<open>"abc"\<close> has no token, and the result is the
  string \<^verbatim>\<open>"0.00"\<close>, equal to the result for the text \<^verbatim>\<open>"0"\<close>.
\<close>

theorem no_value_sentinel_counterexample:
  "scanTokens (trim (cleanChars ''abc'')) = []
   \<and> extractNumericValue ''abc'' ''pH'' = Inr ''0.00''
   \<and> extractNumericValue ''abc'' ''pH'' = extractNumericValue ''0'' ''pH''"
  by (simp add: scan_abc extractNumericValue_no_token extract_zero)

text \<open>
  Claim C10. Every token that the pattern matches parses to a number other than NaN,
  so the filter on NaN drops nothing and the second guard, on an empty list of valid
  numbers, is never taken; \<^verbatim>\<open>extractNumericValue\<close> returns a string on every text
  and parameter, without throwing, and that string is not \<^verbatim>\<open>"NaN"\<close>.
\<close>

theorem tokens_parse_and_extraction_total:
  "(\<forall>t \<in> set (scanTokens s). parseFloat t \<noteq> NaN)
   \<and> (\<forall>numbers. matchNumbers (trim (cleanChars text)) = Some numbers \<longrightarrow>
          filter (\<lambda>n. \<not> isNaN n) (map parseFloat numbers) = map parseFloat numbers
          \<and> length (filter (\<lambda>n. \<not> isNaN n) (map parseFloat numbers)) \<noteq> 0)
   \<and> (\<exists>r. extractNumericValue text parameter = Inr r \<and> r \<noteq> ''NaN'')"
proof -
  have a: "\<forall>t \<in> set (scanTokens s). parseFloat t \<noteq> NaN"
    by (simp add: token_parses)
  have b: "filter (\<lambda>n. \<not> isNaN n) (map parseFloat numbers) = map parseFloat numbers
          \<and> length (filter (\<lambda>n. \<not> isNaN n) (map parseFloat numbers)) \<noteq> 0"
    if "matchNumbers (trim (cleanChars text)) = Some numbers" for numbers
  proof -
    from that have n: "numbers = scanTokens (trim (cleanChars text))" and "numbers \<noteq> []"
      by (auto simp: matchNumbers_def split: list.splits)
    then show ?thesis
      using validNumbers_all [of "trim (cleanChars text)"] by simp
  qed
  have c: "\<exists>r. extractNumericValue text parameter = Inr r \<and> r \<noteq> ''NaN''"
  proof (cases "scanTokens (trim (cleanChars text))")
    case Nil
    then show ?thesis by (simp add: extractNumericValue_no_token)
  next
    case (Cons t ts)
    from extractNumericValue_tokens [OF this, of parameter] show ?thesis
      using toFixed2_not_NaN_string by blast
  qed
  from a b c show ?thesis by blast
qed

theorem tokens_parse_and_extraction_total_witness:
  "''7.4'' \<in> set (scanTokens ''7.4'') \<and> parseFloat ''7.4'' \<noteq> NaN
   \<and> matchNumbers (trim (cleanChars ''pH 7.4'')) = Some [''7.4'']
   \<and> length (filter (\<lambda>n. \<not> isNaN n) (map parseFloat [''7.4''])) \<noteq> 0
   \<and> extractNumericValue ''pH 7.4'' ''pH'' = Inr ''7.40''"
proof -
  have s: "scanTokens ''7.4'' = [''7.4'']" by (simp add: scan_eval)
  have m: "matchNumbers (trim (cleanChars ''pH 7.4'')) = Some [''7.4'']"
    by (simp add: matchNumbers_def scan_pH_7_4)
  from tokens_parse_and_extraction_total [of "''7.4''" "''pH 7.4''" "''pH''"] s m
  show ?thesis by (simp add: extract_pH_7_4)
qed

text \<open>Outside the tokens NaN does occur: a text without a number parses to NaN.\<close>

lemma parseFloat_NaN_example: "parseFloat ''abc'' = NaN"
  by (simp add: parse_eval)

text \<open>
  Claim C3. For each of the four parameters and every non-empty list of parsed values,
  the selection is the first value, in scan order, within the valid range of the
  parameter (pH 0 to 14, temperature -10 to 60, dissolved oxygen 0 to 25, salinity 0 to
  50), and the first value of the list when none is in range; for the text
  \<^verbatim>\<open>"143"\<close> and pH the result is \<^verbatim>\<open>"143.00"\<close>.
\<close>

theorem range_preference:
  assumes "validNumbers \<noteq> []"
  shows "selectValue (paramName p) validNumbers =
           Some (case find (inValidRange p) validNumbers of
                   Some v \<Rightarrow> v
                 | None \<Rightarrow> hd validNumbers)
         \<and> extractNumericValue ''143'' (paramName PH) = Inr ''143.00''"
proof -
  have rng: "(\<lambda>n. jsGe n (Fin lo) \<and> jsLe n (Fin hi))
               = (\<lambda>n. case n of Fin x \<Rightarrow> lo \<le> x \<and> x \<le> hi | _ \<Rightarrow> False)" for lo hi
  proof
    fix n
    show "(jsGe n (Fin lo) \<and> jsLe n (Fin hi))
            = (case n of Fin x \<Rightarrow> lo \<le> x \<and> x \<le> hi | _ \<Rightarrow> False)"
      by (cases n) (simp_all add: jsGe_def)
  qed
  have sel: "selectValue (paramName p) validNumbers =
      preferInRange (fst (validRange p)) (snd (validRange p)) validNumbers"
    by (cases p) (simp_all add: selectValue_def)
  have "inValidRange p =
      (\<lambda>n. jsGe n (Fin (fst (validRange p))) \<and> jsLe n (Fin (snd (validRange p))))"
    unfolding rng by (rule ext) (simp add: inValidRange_def)
  with sel preferInRange_find [OF assms] show ?thesis
    by (simp add: extract_143)
qed

theorem range_preference_witness:
  "[Fin 143, Fin 7, Fin 3] \<noteq> []
   \<and> selectValue (paramName PH) [Fin 143, Fin 7, Fin 3] = Some (Fin 7)
   \<and> selectValue (paramName PH) [Fin 143, Fin 20] = Some (Fin 143)"
  using range_preference [of "[Fin 143, Fin 7, Fin 3]" PH]
    range_preference [of "[Fin 143, Fin 20]" PH]
  by (simp add: inValidRange_def)

text \<open>
  Claim C7. The text of twenty-two digits \<^verbatim>\<open>"1000000000000000000000"\<close> reads
  \<open>10 ^ 21\<close>, for which \<^verbatim>\<open>toFixed(2)\<close> answers in exponent notation: the result is
  \<^verbatim>\<open>"1e+21"\<close>, which has no decimal point and so no fractional digits.
\<close>

theorem huge_value_not_two_decimals:
  "extractNumericValue ''1000000000000000000000'' ''pH'' = Inr ''1e+21''
   \<and> CHR ''.'' \<notin> set ''1e+21''"
  using extract_1e21 by simp

lemma exponent_form_not_two_decimals: "\<not> twoFractionDigits ''1e+21''"
  by (simp add: twoFractionDigits_def)

text \<open>
  Below \<open>10 ^ 21\<close> the format is as the specification says: whenever the selected value
  is finite and of magnitude less than \<open>10 ^ 21\<close> the result has exactly two fractional
  digits, and the text \<^verbatim>\<open>"pH 7.4"\<close> gives \<^verbatim>\<open>"7.40"\<close>.
\<close>

lemma two_decimals_below_1e21:
  assumes "scanTokens (trim (cleanChars text)) = t # ts"
    and "selectValue parameter (map parseFloat (t # ts)) = Some (Fin q)"
    and "\<bar>q\<bar> < 10 ^ 21"
  shows "\<exists>r. extractNumericValue text parameter = Inr r \<and> twoFractionDigits r"
  using extractNumericValue_tokens [OF assms(1), of parameter] assms(2)
    toFixed2_small [OF assms(3)] by auto

section \<open>Properties of cross-variant selection\<close>

lemma firstMax_decomp:
  "\<exists>pre post. x # xs = pre @ firstMax x xs # post
     \<and> (\<forall>e \<in> set pre. snd e < snd (firstMax x xs))
     \<and> (\<forall>e \<in> set post. snd e \<le> snd (firstMax x xs))"
proof (induction xs arbitrary: x)
  case Nil
  have "[x] = [] @ firstMax x [] # []" by simp
  then show ?case by fastforce
next
  case (Cons y ys)
  show ?case
  proof (cases "snd x < snd y")
    case True
    from Cons [of y] obtain pre post where d: "y # ys = pre @ firstMax y ys # post"
      and lt: "\<forall>e \<in> set pre. snd e < snd (firstMax y ys)"
      and le: "\<forall>e \<in> set post. snd e \<le> snd (firstMax y ys)"
      by blast
    have "snd y \<le> snd (firstMax y ys)"
    proof (cases pre)
      case Nil
      with d have "firstMax y ys = y" by (metis append_Nil list.inject)
      then show ?thesis by simp
    next
      case (Cons a as)
      with d have "y \<in> set pre" by simp
      with lt show ?thesis by fastforce
    qed
    with True have "snd x < snd (firstMax y ys)" by simp
    with lt have "\<forall>e \<in> set (x # pre). snd e < snd (firstMax y ys)" by simp
    moreover from d have "x # y # ys = (x # pre) @ firstMax y ys # post" by simp
    ultimately show ?thesis using le True by (metis firstMax.simps(2))
  next
    case False
    from Cons [of x] obtain pre post where d: "x # ys = pre @ firstMax x ys # post"
      and lt: "\<forall>e \<in> set pre. snd e < snd (firstMax x ys)"
      and le: "\<forall>e \<in> set post. snd e \<le> snd (firstMax x ys)"
      by blast
    have fm: "firstMax x (y # ys) = firstMax x ys" using False by simp
    show ?thesis
    proof (cases pre)
      case Nil
      with d have x: "firstMax x ys = x" and post: "post = ys"
        by (metis append_Nil list.inject)+
      from False x have "snd y \<le> snd (firstMax x ys)" by simp
      with le post have "\<forall>e \<in> set (y # ys). snd e \<le> snd (firstMax x ys)" by simp
      moreover have "x # y # ys = [] @ firstMax x ys # (y # ys)" using x by simp
      ultimately show ?thesis unfolding fm by (metis empty_iff list.set(1))
    next
      case (Cons a as)
      with d have a: "a = x" and ys: "ys = as @ firstMax x ys # post"
        by (metis append_Cons list.inject)+
      from lt Cons a have "snd x < snd (firstMax x ys)" by simp
      with False have "snd y < snd (firstMax x ys)" by simp
      with lt Cons a have "\<forall>e \<in> set (x # y # as). snd e < snd (firstMax x ys)" by simp
      moreover from ys have "x # y # ys = (x # y # as) @ firstMax x ys # post" by simp
      ultimately show ?thesis unfolding fm using le by blast
    qed
  qed
qed

lemma validCandidates_Cons:
  assumes "extractNumericValue (data_text r) p = Inr v"
  shows "validCandidates p (r # rs) =
    (if v \<noteq> ''0.00'' then (v, data_confidence r) # validCandidates p rs
     else validCandidates p rs)"
  using assms by (simp add: validCandidates_def)

lemma selectBest_firstMax:
  "selectBest p (bv, bc) rs =
     Inr (if bv = ''0.00''
          then (case validCandidates p rs of [] \<Rightarrow> (bv, bc) | x # xs \<Rightarrow> firstMax x xs)
          else firstMax (bv, bc) (validCandidates p rs))"
proof (induction rs arbitrary: bv bc)
  case Nil
  show ?case by (simp add: validCandidates_def)
next
  case (Cons r rs)
  obtain v where v: "extractNumericValue (data_text r) p = Inr v"
    using extractNumericValue_total by blast
  show ?case
  proof (cases "v = ''0.00''")
    case True
    with v Cons [of bv bc] show ?thesis
      by (simp add: validCandidates_Cons [OF v])
  next
    case False
    with v Cons [of v "data_confidence r"] Cons [of bv bc] show ?thesis
      by (simp add: validCandidates_Cons [OF v])
  qed
qed

lemma validCandidates_empty:
  "validCandidates p rs = [] \<longleftrightarrow>
     (\<forall>r \<in> set rs. extractNumericValue (data_text r) p = Inr ''0.00'')"
proof (induction rs)
  case Nil
  show ?case by (simp add: validCandidates_def)
next
  case (Cons r rs)
  obtain v where v: "extractNumericValue (data_text r) p = Inr v"
    using extractNumericValue_total by blast
  with Cons show ?case
    by (simp add: validCandidates_Cons [OF v])
qed

lemma validCandidates_member:
  "(v, c) \<in> set (validCandidates p rs) \<longleftrightarrow>
     v \<noteq> ''0.00'' \<and> (\<exists>r \<in> set rs. extractNumericValue (data_text r) p = Inr v
                         \<and> data_confidence r = c)"
proof (induction rs)
  case Nil
  show ?case by (simp add: validCandidates_def)
next
  case (Cons r rs)
  obtain w where w: "extractNumericValue (data_text r) p = Inr w"
    using extractNumericValue_total by blast
  with Cons show ?case
    by (auto simp: validCandidates_Cons [OF w])
qed


subsection \<open>Worked selections\<close>

lemma select_temperature_example:
  "selectBest ''temperature'' (''0.00'', 0)
     [\<lparr>data_text = ''22.5'', data_confidence = 60\<rparr>,
      \<lparr>data_text = ''-3.0'', data_confidence = 85\<rparr>] = Inr (''-3.00'', 85)"
  by (simp add: extract_22_5 extract_minus_3)

lemma select_three_variants_example:
  "selectBest ''pH'' (''0.00'', 0)
     [\<lparr>data_text = [], data_confidence = 90\<rparr>,
      \<lparr>data_text = ''abc'', data_confidence = 95\<rparr>,
      \<lparr>data_text = ''6.8'', data_confidence = 40\<rparr>] = Inr (''6.80'', 40)"
  by (simp add: extractNumericValue_no_token scan_empty scan_abc extract_6_8)

lemma select_zero_reading_example:
  "selectBest ''pH'' (''0.00'', 0)
     [\<lparr>data_text = ''0'', data_confidence = 90\<rparr>,
      \<lparr>data_text = ''5'', data_confidence = 50\<rparr>,
      \<lparr>data_text = ''abc'', data_confidence = 30\<rparr>] = Inr (''5.00'', 50)"
  by (simp add: extract_zero extract_5 extractNumericValue_no_token scan_abc)

section \<open>Claims about cross-variant selection\<close>

text \<open>
  Claim C2, as amended. Among the variants whose extraction is a string other than
  the placeholder \<^verbatim>\<open>"0.00"\<close>, the selection is the one of highest confidence, the
  earliest one among equals: every such variant before it has a strictly lower
  confidence and every one after it has none higher. When there is no such variant the
  result is \<^verbatim>\<open>"0.00"\<close>. Variants that give \<^verbatim>\<open>"0.00"\<close> take no part, whatever
  their confidence. The two examples of the specification give \<^verbatim>\<open>"-3.00"\<close> and
  \<^verbatim>\<open>"6.80"\<close>.
\<close>

theorem selection_first_highest_confidence:
  "\<exists>best. selectBest p (''0.00'', 0) rs = Inr best
     \<and> (validCandidates p rs = [] \<longrightarrow> best = (''0.00'', 0))
     \<and> (validCandidates p rs \<noteq> [] \<longrightarrow>
          (\<exists>pre post. validCandidates p rs = pre @ best # post
             \<and> (\<forall>e \<in> set pre. snd e < snd best)
             \<and> (\<forall>e \<in> set post. snd e \<le> snd best)))
     \<and> selectBest ''temperature'' (''0.00'', 0)
          [\<lparr>data_text = ''22.5'', data_confidence = 60\<rparr>,
           \<lparr>data_text = ''-3.0'', data_confidence = 85\<rparr>] = Inr (''-3.00'', 85)
     \<and> selectBest ''pH'' (''0.00'', 0)
          [\<lparr>data_text = [], data_confidence = 90\<rparr>,
           \<lparr>data_text = ''abc'', data_confidence = 95\<rparr>,
           \<lparr>data_text = ''6.8'', data_confidence = 40\<rparr>] = Inr (''6.80'', 40)"
proof (cases "validCandidates p rs")
  case Nil
  then show ?thesis
    using select_temperature_example select_three_variants_example
    by (simp add: selectBest_firstMax)
next
  case (Cons x xs)
  from firstMax_decomp [of x xs] Cons show ?thesis
    using select_temperature_example select_three_variants_example
    by (simp add: selectBest_firstMax)
qed

theorem selection_first_highest_confidence_witness:
  "validCandidates ''temperature''
     [\<lparr>data_text = ''22.5'', data_confidence = 60\<rparr>,
      \<lparr>data_text = ''abc'', data_confidence = 99\<rparr>,
      \<lparr>data_text = ''-3.0'', data_confidence = 85\<rparr>]
     = [(''22.50'', 60)] @ (''-3.00'', 85) # []
   \<and> (60::real) < 85
   \<and> selectBest ''temperature'' (''0.00'', 0)
     [\<lparr>data_text = ''22.5'', data_confidence = 60\<rparr>,
      \<lparr>data_text = ''abc'', data_confidence = 99\<rparr>,
      \<lparr>data_text = ''-3.0'', data_confidence = 85\<rparr>] = Inr (''-3.00'', 85)"
proof -
  have abc: "extractNumericValue ''abc'' ''temperature'' = Inr ''0.00''"
    by (simp add: extractNumericValue_no_token scan_abc)
  have vc: "validCandidates ''temperature''
     [\<lparr>data_text = ''22.5'', data_confidence = 60\<rparr>,
      \<lparr>data_text = ''abc'', data_confidence = 99\<rparr>,
      \<lparr>data_text = ''-3.0'', data_confidence = 85\<rparr>]
     = [(''22.50'', 60), (''-3.00'', 85)]"
    by (simp add: validCandidates_def extract_22_5 extract_minus_3 abc)
  from selection_first_highest_confidence [of "''temperature''"
     "[\<lparr>data_text = ''22.5'', data_confidence = 60\<rparr>,
      \<lparr>data_text = ''abc'', data_confidence = 99\<rparr>,
      \<lparr>data_text = ''-3.0'', data_confidence = 85\<rparr>]"]
  obtain best pre post where
    b: "selectBest ''temperature'' (''0.00'', 0)
     [\<lparr>data_text = ''22.5'', data_confidence = 60\<rparr>,
      \<lparr>data_text = ''abc'', data_confidence = 99\<rparr>,
      \<lparr>data_text = ''-3.0'', data_confidence = 85\<rparr>] = Inr best"
    and d: "[(''22.50'', 60), (''-3.00'', 85)] = pre @ best # post"
    and lt: "\<forall>e \<in> set pre. snd e < snd best"
    and le: "\<forall>e \<in> set post. snd e \<le> snd best"
    unfolding vc by auto
  have "best = (''-3.00'', 85)"
  proof (cases pre)
    case Nil
    with d have "best = (''22.50'', 60)" and "post = [(''-3.00'', 85)]" by simp_all
    with le show ?thesis by simp
  next
    case (Cons a as)
    with d have "as @ best # post = [(''-3.00'', 85)]" by simp
    then show ?thesis by (cases as) simp_all
  qed
  with b vc show ?thesis by simp
qed

text \<open>
  The claim as stated fails on a reading of zero. Of the three variants below the first
  has a numeric token, which parses to zero, and strictly the highest confidence; the
  selection is the second.
\<close>

theorem selection_skips_zero_counterexample:
  "scanTokens (trim (cleanChars ''0'')) = [''0''] \<and> parseFloat ''0'' = Fin 0
   \<and> (50::real) < 90
   \<and> selectBest ''pH'' (''0.00'', 0)
        [\<lparr>data_text = ''0'', data_confidence = 90\<rparr>,
         \<lparr>data_text = ''5'', data_confidence = 50\<rparr>,
         \<lparr>data_text = ''abc'', data_confidence = 30\<rparr>] = Inr (''5.00'', 50)"
proof -
  have "(50::real) < 90" by simp
  with scan_zero parse_zero select_zero_reading_example show ?thesis by blast
qed

text \<open>
  Claim C9. A reading of exactly zero is rendered as \<^verbatim>\<open>"0.00"\<close>, the failure
  placeholder. Whenever some variant gives a string other than \<^verbatim>\<open>"0.00"\<close>, the
  selected value is such a string, taken with its confidence from one of those variants:
  a variant that reads zero is never the one selected, whatever its confidence. When
  every variant gives \<^verbatim>\<open>"0.00"\<close>, by reading zero or by failing, the result is
  \<^verbatim>\<open>"0.00"\<close>; three variants that read zero and three that hold no number give the
  same result.
\<close>

theorem zero_reading_treated_as_failure:
  "toFixed2 (Fin 0) = ''0.00''
   \<and> extractNumericValue ''0'' p = Inr ''0.00''
   \<and> ((\<exists>r \<in> set rs. extractNumericValue (data_text r) p \<noteq> Inr ''0.00'') \<longrightarrow>
        (\<exists>v c. selectBest p (''0.00'', 0) rs = Inr (v, c) \<and> v \<noteq> ''0.00''
           \<and> (\<exists>r \<in> set rs. extractNumericValue (data_text r) p = Inr v
                  \<and> data_confidence r = c)))
   \<and> ((\<forall>r \<in> set rs. extractNumericValue (data_text r) p = Inr ''0.00'') \<longrightarrow>
        selectBest p (''0.00'', 0) rs = Inr (''0.00'', 0))
   \<and> selectBest p (''0.00'', 0)
        [\<lparr>data_text = ''0'', data_confidence = c1\<rparr>,
         \<lparr>data_text = ''0'', data_confidence = c2\<rparr>,
         \<lparr>data_text = ''0'', data_confidence = c3\<rparr>]
      = selectBest p (''0.00'', 0)
        [\<lparr>data_text = ''abc'', data_confidence = c1\<rparr>,
         \<lparr>data_text = ''abc'', data_confidence = c2\<rparr>,
         \<lparr>data_text = ''abc'', data_confidence = c3\<rparr>]"
proof -
  have a: "\<exists>v c. selectBest p (''0.00'', 0) rs = Inr (v, c) \<and> v \<noteq> ''0.00''
           \<and> (\<exists>r \<in> set rs. extractNumericValue (data_text r) p = Inr v
                  \<and> data_confidence r = c)"
    if "\<exists>r \<in> set rs. extractNumericValue (data_text r) p \<noteq> Inr ''0.00''"
  proof -
    from that have "validCandidates p rs \<noteq> []"
      by (simp add: validCandidates_empty)
    then obtain x xs where vc: "validCandidates p rs = x # xs"
      by (cases "validCandidates p rs") auto
    from firstMax_decomp [of x xs] have "firstMax x xs \<in> set (validCandidates p rs)"
      unfolding vc by (metis in_set_conv_decomp)
    moreover obtain v c where fm: "firstMax x xs = (v, c)" by (cases "firstMax x xs")
    ultimately have "v \<noteq> ''0.00'' \<and> (\<exists>r \<in> set rs.
        extractNumericValue (data_text r) p = Inr v \<and> data_confidence r = c)"
      by (simp add: validCandidates_member)
    moreover have "selectBest p (''0.00'', 0) rs = Inr (v, c)"
      by (simp add: selectBest_firstMax vc fm)
    ultimately show ?thesis by blast
  qed
  have b: "selectBest p (''0.00'', 0) rs = Inr (''0.00'', 0)"
    if "\<forall>r \<in> set rs. extractNumericValue (data_text r) p = Inr ''0.00''"
    using that by (simp add: selectBest_firstMax validCandidates_empty [symmetric])
  have abc: "extractNumericValue ''abc'' p = Inr ''0.00''"
    by (simp add: extractNumericValue_no_token scan_abc)
  have c: "selectBest p (''0.00'', 0)
        [\<lparr>data_text = ''0'', data_confidence = c1\<rparr>,
         \<lparr>data_text = ''0'', data_confidence = c2\<rparr>,
         \<lparr>data_text = ''0'', data_confidence = c3\<rparr>]
      = selectBest p (''0.00'', 0)
        [\<lparr>data_text = ''abc'', data_confidence = c1\<rparr>,
         \<lparr>data_text = ''abc'', data_confidence = c2\<rparr>,
         \<lparr>data_text = ''abc'', data_confidence = c3\<rparr>]"
    by (simp add: extract_zero abc)
  from a b c toFixed2_zero extract_zero show ?thesis by blast
qed

theorem zero_reading_treated_as_failure_witness:
  "extractNumericValue ''22.5'' ''temperature'' \<noteq> Inr ''0.00''
   \<and> (60::real) < 95
   \<and> selectBest ''temperature'' (''0.00'', 0)
        [\<lparr>data_text = ''0'', data_confidence = 95\<rparr>,
         \<lparr>data_text = ''22.5'', data_confidence = 60\<rparr>] = Inr (''22.50'', 60)
   \<and> selectBest ''temperature'' (''0.00'', 0)
        [\<lparr>data_text = ''0'', data_confidence = 95\<rparr>,
         \<lparr>data_text = ''0'', data_confidence = 60\<rparr>] = Inr (''0.00'', 0)"
proof -
  let ?rs = "[\<lparr>data_text = ''0'', data_confidence = 95\<rparr>,
              \<lparr>data_text = ''22.5'', data_confidence = 60::real\<rparr>]"
  let ?zs = "[\<lparr>data_text = ''0'', data_confidence = 95\<rparr>,
              \<lparr>data_text = ''0'', data_confidence = 60::real\<rparr>]"
  have ne: "extractNumericValue ''22.5'' ''temperature'' \<noteq> Inr ''0.00''"
    by (simp add: extract_22_5)
  then have ex: "\<exists>r \<in> set ?rs. extractNumericValue (data_text r) ''temperature'' \<noteq> Inr ''0.00''"
    by simp
  have all: "\<forall>r \<in> set ?zs. extractNumericValue (data_text r) ''temperature'' = Inr ''0.00''"
    by (simp add: extract_zero)
  have two: "selectBest ''temperature'' (''0.00'', 0) ?zs = Inr (''0.00'', 0)"
    using zero_reading_treated_as_failure [of "''temperature''" ?zs, THEN conjunct2,
        THEN conjunct2, THEN conjunct2, THEN conjunct1]
      all by (rule mp)
  have "\<exists>v c. selectBest ''temperature'' (''0.00'', 0) ?rs = Inr (v, c) \<and> v \<noteq> ''0.00''
           \<and> (\<exists>r \<in> set ?rs. extractNumericValue (data_text r) ''temperature'' = Inr v
                  \<and> data_confidence r = c)"
    using zero_reading_treated_as_failure [of "''temperature''" ?rs, THEN conjunct2,
        THEN conjunct2, THEN conjunct1]
      ex by (rule mp)
  then obtain v c where s: "selectBest ''temperature'' (''0.00'', 0) ?rs = Inr (v, c)"
    and v: "v \<noteq> ''0.00''"
    and r: "\<exists>r \<in> set ?rs. extractNumericValue (data_text r) ''temperature'' = Inr v
              \<and> data_confidence r = c"
    by (elim exE conjE)
  from r have "(Inr ''0.00'' = (Inr v :: jsError + string) \<and> 95 = c)
      \<or> (Inr ''22.50'' = (Inr v :: jsError + string) \<and> 60 = c)"
    by (simp add: extract_zero extract_22_5)
  with v have "v = ''22.50''" and "c = 60" by auto
  with s have one: "selectBest ''temperature'' (''0.00'', 0) ?rs = Inr (''22.50'', 60)"
    by simp
  have "(60::real) < 95" by simp
  with ne one two show ?thesis by (intro conjI)
qed

section \<open>The quadrant partitioner\<close>

lemma quadrants_keys:
  "map fst (quadrants W H) = [''temperature'', ''pH'', ''dissolvedOxygen'', ''salinity'']"
  by (simp add: quadrants_def Let_def)

text \<open>
  Claim C4. For an image of positive even width \<open>W\<close> and height \<open>H\<close> the partitioner
  yields exactly four regions, each \<open>W div 2\<close> by \<open>H div 2\<close>; regions of different
  parameters share no pixel; together they cover the image exactly; and the top-left
  corner of the image lies in the region of \<^verbatim>\<open>pH\<close> only, the top-right corner in that
  of \<^verbatim>\<open>temperature\<close>, the bottom-left corner in that of \<^verbatim>\<open>dissolvedOxygen\<close> and the
  bottom-right corner in that of \<^verbatim>\<open>salinity\<close>.
\<close>

theorem quadrants_tile_even_image:
  assumes "0 < W" and "0 < H" and "even W" and "even H"
  shows "length (quadrants W H) = 4
    \<and> map fst (quadrants W H) = [''temperature'', ''pH'', ''dissolvedOxygen'', ''salinity'']
    \<and> (\<forall>(p, r) \<in> set (quadrants W H). \<forall>(q, s) \<in> set (quadrants W H).
          p \<noteq> q \<longrightarrow> pixels r \<inter> pixels s = {})
    \<and> (\<Union>(p, r) \<in> set (quadrants W H). pixels r) = imagePixels W H
    \<and> (\<forall>(p, r) \<in> set (quadrants W H).
          r_width r = W div 2 \<and> r_height r = H div 2
          \<and> ((0, 0) \<in> pixels r \<longleftrightarrow> p = ''pH'')
          \<and> ((W - 1, 0) \<in> pixels r \<longleftrightarrow> p = ''temperature'')
          \<and> ((0, H - 1) \<in> pixels r \<longleftrightarrow> p = ''dissolvedOxygen'')
          \<and> ((W - 1, H - 1) \<in> pixels r \<longleftrightarrow> p = ''salinity''))"
proof -
  from assms obtain a b where W: "W = 2 * a" and H: "H = 2 * b" and a: "0 < a" and b: "0 < b"
    by (auto elim!: evenE)
  have len: "length (quadrants W H) = 4"
    by (simp add: quadrants_def Let_def)
  have disj: "\<forall>(p, r) \<in> set (quadrants W H). \<forall>(q, s) \<in> set (quadrants W H).
          p \<noteq> q \<longrightarrow> pixels r \<inter> pixels s = {}"
    by (auto simp: quadrants_def Let_def pixels_def)
  have cover: "(\<Union>(p, r) \<in> set (quadrants W H). pixels r) = imagePixels W H"
    unfolding W H using a b
    by (auto simp: quadrants_def Let_def pixels_def imagePixels_def)
  have corners: "\<forall>(p, r) \<in> set (quadrants W H).
          r_width r = W div 2 \<and> r_height r = H div 2
          \<and> ((0, 0) \<in> pixels r \<longleftrightarrow> p = ''pH'')
          \<and> ((W - 1, 0) \<in> pixels r \<longleftrightarrow> p = ''temperature'')
          \<and> ((0, H - 1) \<in> pixels r \<longleftrightarrow> p = ''dissolvedOxygen'')
          \<and> ((W - 1, H - 1) \<in> pixels r \<longleftrightarrow> p = ''salinity'')"
    unfolding W H using a b
    by (simp add: quadrants_def Let_def pixels_def)
  from len quadrants_keys disj cover corners show ?thesis by blast
qed

theorem quadrants_tile_even_image_witness:
  "(0::int) < 400 \<and> even (400::int)
    \<and> map fst (quadrants 400 400) = [''temperature'', ''pH'', ''dissolvedOxygen'', ''salinity'']
    \<and> (\<Union>(p, r) \<in> set (quadrants 400 400). pixels r) = imagePixels 400 400"
  using quadrants_tile_even_image [of 400 400] by simp

section \<open>Properties of the orchestrator\<close>

lemma processQuadrant_fails:
  assumes "pipelineFails sv parameter coordinates"
  shows "processQuadrant sv parameter coordinates = ''0.00''"
proof -
  from assms obtain s where s: "isl (preprocess sv parameter s coordinates)
      \<or> (case preprocess sv parameter s coordinates of
            Inr b \<Rightarrow> isl (recognize sv parameter s b)
          | Inl e \<Rightarrow> False)"
    unfolding pipelineFails_def by blast
  show ?thesis
  proof (cases s)
    case Basic
    with s show ?thesis
      by (auto simp: processQuadrant_def isl_def split: sum.splits)
  next
    case Contrast
    with s show ?thesis
      by (auto simp: processQuadrant_def isl_def split: sum.splits)
  next
    case Threshold
    with s show ?thesis
      by (auto simp: processQuadrant_def isl_def split: sum.splits)
  qed
qed

lemma foldl_results_lookup:
  "foldl (\<lambda>results (parameter, coordinates).
            results(parameter \<mapsto> processQuadrant sv parameter coordinates)) m tasks k
   = (case map_of (rev tasks) k of
        Some c \<Rightarrow> Some (processQuadrant sv k c)
      | None \<Rightarrow> m k)"
proof (induction tasks arbitrary: m)
  case Nil
  show ?case by simp
next
  case (Cons t ts)
  obtain p c where t: "t = (p, c)" by (cases t)
  have "foldl (\<lambda>results (parameter, coordinates).
            results(parameter \<mapsto> processQuadrant sv parameter coordinates)) m (t # ts) k
      = foldl (\<lambda>results (parameter, coordinates).
            results(parameter \<mapsto> processQuadrant sv parameter coordinates))
          (m(p \<mapsto> processQuadrant sv p c)) ts k"
    unfolding t by (simp only: foldl_Cons prod.case)
  also have "\<dots> = (case map_of (rev ts) k of
        Some c' \<Rightarrow> Some (processQuadrant sv k c')
      | None \<Rightarrow> (m(p \<mapsto> processQuadrant sv p c)) k)"
    by (rule Cons.IH)
  also have "\<dots> = (case map_of (rev (t # ts)) k of
        Some c' \<Rightarrow> Some (processQuadrant sv k c')
      | None \<Rightarrow> m k)"
    unfolding t by (simp add: map_add_def split: option.splits)
  finally show ?case .
qed

lemma distinct_keys_rev: "distinct (map fst (rev xs)) = distinct (map fst xs)"
  by (metis distinct_rev rev_map)

lemma assemble_lookup:
  "assemble sv tasks k = map_option (processQuadrant sv k) (map_of (rev tasks) k)"
  unfolding assemble_def foldl_results_lookup by (simp split: option.splits)

lemma assemble_permutation:
  assumes "mset order = mset tasks" and "distinct (map fst tasks)"
  shows "assemble sv order = assemble sv tasks"
proof -
  from assms(1) have m: "mset (map fst order) = mset (map fst tasks)"
    by (metis mset_map)
  with assms(2) have d: "distinct (map fst order)"
    by (metis mset_eq_imp_distinct_iff)
  from assms(1) have "set order = set tasks" by (rule mset_eq_setD)
  then have "set (rev order) = set (rev tasks)" by simp
  moreover have "distinct (map fst (rev order))" and "distinct (map fst (rev tasks))"
    using d assms(2) by (simp_all only: distinct_keys_rev)
  ultimately have "map_of (rev order) = map_of (rev tasks)"
    by (simp add: map_of_inject_set)
  then show ?thesis
    by (rule_tac ext) (simp add: assemble_lookup)
qed

lemma quadrants_distinct: "distinct (map fst (quadrants width height))"
  by (simp add: quadrants_keys)

lemma assemble_dom: "dom (assemble sv tasks) = fst ` set tasks"
proof -
  have "k \<in> dom (assemble sv tasks) \<longleftrightarrow> k \<in> fst ` set tasks" for k
    by (simp add: assemble_lookup dom_def map_of_eq_None_iff)
  then show ?thesis by blast
qed

lemma quadrants_dom:
  "dom (assemble sv (quadrants width height))
     = {''pH'', ''temperature'', ''dissolvedOxygen'', ''salinity''}"
proof -
  have "fst ` set (quadrants width height) = set (map fst (quadrants width height))"
    by simp
  then show ?thesis
    unfolding assemble_dom quadrants_keys by auto
qed

lemma assemble_quadrant:
  assumes "(parameter, coordinates) \<in> set (quadrants width height)"
  shows "assemble sv (quadrants width height) parameter
           = Some (processQuadrant sv parameter coordinates)"
proof -
  have "distinct (map fst (rev (quadrants width height)))"
    using quadrants_distinct by (simp only: distinct_keys_rev)
  moreover have "(parameter, coordinates) \<in> set (rev (quadrants width height))"
    using assms by simp
  ultimately have "map_of (rev (quadrants width height)) parameter = Some coordinates"
    by (rule map_of_is_SomeI)
  then show ?thesis by (simp add: assemble_lookup)
qed

lemma processQuadrant_cong:
  assumes "preprocess sv' q = preprocess sv q" and "recognize sv' q = recognize sv q"
  shows "processQuadrant sv' q c = processQuadrant sv q c"
  unfolding processQuadrant_def assms by (rule refl)

lemma extract_7_4_any: "extractNumericValue ''7.4'' parameter = Inr ''7.40''"
  by (simp add: select_eval scan_eval parse_eval format_eval)

lemma processQuadrant_sample:
  "parameter \<noteq> ''pH'' \<Longrightarrow> processQuadrant sampleServices parameter coordinates = ''7.40''"
  by (simp add: processQuadrant_def sampleServices_def extract_7_4_any)

lemma pipelineFails_sample: "pipelineFails sampleServices ''pH'' coordinates"
  by (simp add: pipelineFails_def sampleServices_def)

lemma processQuadrant_sample_pH: "processQuadrant sampleServices ''pH'' coordinates = ''0.00''"
  by (rule processQuadrant_fails) (rule pipelineFails_sample)

section \<open>Claims about the orchestrator\<close>

text \<open>
  Claim C5. When the image decodes, \<^verbatim>\<open>processImage\<close> returns a result whose keys are
  exactly \<^verbatim>\<open>pH\<close>, \<^verbatim>\<open>temperature\<close>, \<^verbatim>\<open>dissolvedOxygen\<close> and \<^verbatim>\<open>salinity\<close>. The slot
  of each parameter is the outcome of its own pipeline on its own region, and a pipeline
  that fails leaves the placeholder \<^verbatim>\<open>"0.00"\<close> in its slot. Changing the behaviour
  of the services for one parameter only, for instance by making its pipeline fail,
  leaves the set of keys and the slots of the other parameters as they were.
\<close>

theorem result_complete_and_isolated:
  assumes "metadata sv = Inr (width, height)"
  shows "\<exists>results. processImage sv = Inr results
    \<and> dom results = {''pH'', ''temperature'', ''dissolvedOxygen'', ''salinity''}
    \<and> (\<forall>(parameter, coordinates) \<in> set (quadrants width height).
          results parameter = Some (processQuadrant sv parameter coordinates)
          \<and> (pipelineFails sv parameter coordinates \<longrightarrow> results parameter = Some ''0.00''))
    \<and> (\<forall>sv' failed.
          metadata sv' = metadata sv
          \<and> (\<forall>q. q \<noteq> failed \<longrightarrow>
                 preprocess sv' q = preprocess sv q \<and> recognize sv' q = recognize sv q)
          \<longrightarrow> (\<exists>results'. processImage sv' = Inr results'
                 \<and> dom results' = dom results
                 \<and> (\<forall>q. q \<noteq> failed \<longrightarrow> results' q = results q)))"
proof -
  let ?results = "assemble sv (quadrants width height)"
  have p: "processImage sv = Inr ?results"
    using assms by (simp add: processImage_def)
  have slots: "\<forall>(parameter, coordinates) \<in> set (quadrants width height).
          ?results parameter = Some (processQuadrant sv parameter coordinates)
          \<and> (pipelineFails sv parameter coordinates \<longrightarrow> ?results parameter = Some ''0.00'')"
  proof (rule ballI)
    fix x
    assume x: "x \<in> set (quadrants width height)"
    obtain parameter coordinates where xp: "x = (parameter, coordinates)" by (cases x)
    from x have r: "?results parameter = Some (processQuadrant sv parameter coordinates)"
      unfolding xp by (rule assemble_quadrant)
    show "case x of (parameter, coordinates) \<Rightarrow>
          ?results parameter = Some (processQuadrant sv parameter coordinates)
          \<and> (pipelineFails sv parameter coordinates \<longrightarrow> ?results parameter = Some ''0.00'')"
      unfolding xp prod.case using r by (simp add: processQuadrant_fails)
  qed
  have others: "\<exists>results'. processImage sv' = Inr results'
                 \<and> dom results' = dom ?results
                 \<and> (\<forall>q. q \<noteq> failed \<longrightarrow> results' q = ?results q)"
    if m: "metadata sv' = metadata sv"
      and same: "\<forall>q. q \<noteq> failed \<longrightarrow>
                 preprocess sv' q = preprocess sv q \<and> recognize sv' q = recognize sv q"
    for sv' :: "'a services" and failed
  proof -
    have "processImage sv' = Inr (assemble sv' (quadrants width height))"
      using m assms by (simp add: processImage_def)
    moreover have "assemble sv' (quadrants width height) q = ?results q" if "q \<noteq> failed" for q
    proof -
      from same that have pre: "preprocess sv' q = preprocess sv q"
        and rec: "recognize sv' q = recognize sv q"
        by simp_all
      have "processQuadrant sv' q c = processQuadrant sv q c" for c
        using pre rec by (rule processQuadrant_cong)
      then have "processQuadrant sv' q = processQuadrant sv q" by (rule ext)
      then show ?thesis by (simp add: assemble_lookup)
    qed
    moreover have "dom (assemble sv' (quadrants width height)) = dom ?results"
      by (simp only: quadrants_dom)
    ultimately show ?thesis by simp
  qed
  show ?thesis
  proof (intro exI [of _ ?results] conjI)
    show "processImage sv = Inr ?results" by (rule p)
    show "dom ?results = {''pH'', ''temperature'', ''dissolvedOxygen'', ''salinity''}"
      by (rule quadrants_dom)
    show "\<forall>(parameter, coordinates) \<in> set (quadrants width height).
          ?results parameter = Some (processQuadrant sv parameter coordinates)
          \<and> (pipelineFails sv parameter coordinates \<longrightarrow> ?results parameter = Some ''0.00'')"
      by (rule slots)
    show "\<forall>sv' failed.
          metadata sv' = metadata sv
          \<and> (\<forall>q. q \<noteq> failed \<longrightarrow>
                 preprocess sv' q = preprocess sv q \<and> recognize sv' q = recognize sv q)
          \<longrightarrow> (\<exists>results'. processImage sv' = Inr results'
                 \<and> dom results' = dom ?results
                 \<and> (\<forall>q. q \<noteq> failed \<longrightarrow> results' q = ?results q))"
    proof (intro allI impI)
      fix sv' :: "'a services" and failed
      assume "metadata sv' = metadata sv
          \<and> (\<forall>q. q \<noteq> failed \<longrightarrow>
                 preprocess sv' q = preprocess sv q \<and> recognize sv' q = recognize sv q)"
      then have "metadata sv' = metadata sv" and "\<forall>q. q \<noteq> failed \<longrightarrow>
                 preprocess sv' q = preprocess sv q \<and> recognize sv' q = recognize sv q"
        by (rule conjunct1, rule conjunct2)
      then show "\<exists>results'. processImage sv' = Inr results'
                 \<and> dom results' = dom ?results
                 \<and> (\<forall>q. q \<noteq> failed \<longrightarrow> results' q = ?results q)"
        by (rule others)
    qed
  qed
qed



theorem result_complete_and_isolated_witness:
  "metadata sampleServices = Inr (400, 400)
   \<and> pipelineFails sampleServices ''pH''
        \<lparr>r_left = 0, r_top = 0, r_width = 200, r_height = 200\<rparr>
   \<and> (\<exists>results. processImage sampleServices = Inr results
         \<and> dom results = {''pH'', ''temperature'', ''dissolvedOxygen'', ''salinity''}
         \<and> results ''pH'' = Some ''0.00''
         \<and> results ''temperature'' = Some ''7.40''
         \<and> results ''dissolvedOxygen'' = Some ''7.40''
         \<and> results ''salinity'' = Some ''7.40'')"
proof -
  have m: "metadata sampleServices = Inr (400, 400)"
    by (simp add: sampleServices_def)
  have q: "quadrants 400 400 =
      [(''temperature'', \<lparr>r_left = 200, r_top = 0, r_width = 200, r_height = 200\<rparr>),
       (''pH'', \<lparr>r_left = 0, r_top = 0, r_width = 200, r_height = 200\<rparr>),
       (''dissolvedOxygen'', \<lparr>r_left = 0, r_top = 200, r_width = 200, r_height = 200\<rparr>),
       (''salinity'', \<lparr>r_left = 200, r_top = 200, r_width = 200, r_height = 200\<rparr>)]"
    by (simp add: quadrants_def)
  from result_complete_and_isolated [OF m]
  have "\<exists>results. processImage sampleServices = Inr results
         \<and> dom results = {''pH'', ''temperature'', ''dissolvedOxygen'', ''salinity''}
         \<and> results ''pH'' = Some ''0.00''
         \<and> results ''temperature'' = Some ''7.40''
         \<and> results ''dissolvedOxygen'' = Some ''7.40''
         \<and> results ''salinity'' = Some ''7.40''"
  proof (elim exE conjE)
    fix results
    assume r: "processImage sampleServices = Inr results"
      and d: "dom results = {''pH'', ''temperature'', ''dissolvedOxygen'', ''salinity''}"
      and s: "\<forall>(parameter, coordinates) \<in> set (quadrants 400 400).
          results parameter = Some (processQuadrant sampleServices parameter coordinates)
          \<and> (pipelineFails sampleServices parameter coordinates
               \<longrightarrow> results parameter = Some ''0.00'')"
    from s have "results ''pH'' = Some ''0.00''"
      and "results ''temperature'' = Some ''7.40''"
      and "results ''dissolvedOxygen'' = Some ''7.40''"
      and "results ''salinity'' = Some ''7.40''"
      unfolding q
      by (simp_all add: pipelineFails_sample processQuadrant_sample processQuadrant_sample_pH)
    with r d show ?thesis by (intro exI [of _ results] conjI)
  qed
  with m pipelineFails_sample show ?thesis by (intro conjI)
qed

lemma quadrants_empty_regions:
  assumes "width \<le> 0 \<or> height \<le> 0"
    and "(parameter, coordinates) \<in> set (quadrants width height)"
  shows "pixels coordinates = {}"
proof -
  from assms(1) have "width div 2 \<le> 0 \<or> height div 2 \<le> 0" by auto
  with assms(2) show ?thesis
    by (auto simp: quadrants_def Let_def pixels_def)
qed

lemma processQuadrant_rejecting: "processQuadrant (rejectingServices w h) parameter c = ''0.00''"
  by (simp add: processQuadrant_def rejectingServices_def)

text \<open>
  Claim C6, as amended. For an image whose decoded width or height is zero or negative
  no invalid-input error is signalled: the dimensions are not tested, the partition is
  computed all the same, with \<open>width div 2\<close> and \<open>height div 2\<close>, every region is empty,
  and \<^verbatim>\<open>processImage\<close> returns to the caller a result that is complete, each of the
  four keys holding the outcome of its own pipeline.
\<close>

theorem nonpositive_dimensions_unchecked:
  assumes "metadata sv = Inr (width, height)" and "width \<le> 0 \<or> height \<le> 0"
  shows "\<exists>results. processImage sv = Inr results
    \<and> dom results = {''pH'', ''temperature'', ''dissolvedOxygen'', ''salinity''}
    \<and> (\<forall>(parameter, coordinates) \<in> set (quadrants width height).
          pixels coordinates = {}
          \<and> results parameter = Some (processQuadrant sv parameter coordinates))"
proof (intro exI [of _ "assemble sv (quadrants width height)"] conjI)
  show "processImage sv = Inr (assemble sv (quadrants width height))"
    using assms(1) by (simp add: processImage_def)
  show "dom (assemble sv (quadrants width height))
          = {''pH'', ''temperature'', ''dissolvedOxygen'', ''salinity''}"
    by (rule quadrants_dom)
  show "\<forall>(parameter, coordinates) \<in> set (quadrants width height).
          pixels coordinates = {}
          \<and> assemble sv (quadrants width height) parameter
                = Some (processQuadrant sv parameter coordinates)"
  proof (rule ballI)
    fix x
    assume x: "x \<in> set (quadrants width height)"
    obtain parameter coordinates where xp: "x = (parameter, coordinates)" by (cases x)
    from assms(2) x have e: "pixels coordinates = {}"
      unfolding xp by (rule quadrants_empty_regions)
    from x have r: "assemble sv (quadrants width height) parameter
                = Some (processQuadrant sv parameter coordinates)"
      unfolding xp by (rule assemble_quadrant)
    from e r show "case x of (parameter, coordinates) \<Rightarrow>
          pixels coordinates = {}
          \<and> assemble sv (quadrants width height) parameter
                = Some (processQuadrant sv parameter coordinates)"
      unfolding xp prod.case by (rule conjI)
  qed
qed

theorem nonpositive_dimensions_unchecked_witness:
  "metadata (rejectingServices 0 0) = Inr (0, 0) \<and> (0::int) \<le> 0
   \<and> \<not> isl (processImage (rejectingServices 0 0))
   \<and> dom (projr (processImage (rejectingServices 0 0)))
        = {''pH'', ''temperature'', ''dissolvedOxygen'', ''salinity''}
   \<and> metadata (rejectingServices (- 3) 5) = Inr (- 3, 5) \<and> (- 3::int) \<le> 0
   \<and> \<not> isl (processImage (rejectingServices (- 3) 5))
   \<and> dom (projr (processImage (rejectingServices (- 3) 5)))
        = {''pH'', ''temperature'', ''dissolvedOxygen'', ''salinity''}"
proof -
  have m: "metadata (rejectingServices 0 0) = Inr (0, 0)"
    and n: "metadata (rejectingServices (- 3) 5) = Inr (- 3, 5)"
    by (simp_all add: rejectingServices_def)
  have z: "(0::int) \<le> 0 \<or> (0::int) \<le> 0" and neg: "(- 3::int) \<le> 0 \<or> (5::int) \<le> 0"
    by simp_all
  from nonpositive_dimensions_unchecked [OF m z]
  have a: "\<not> isl (processImage (rejectingServices 0 0))
     \<and> dom (projr (processImage (rejectingServices 0 0)))
        = {''pH'', ''temperature'', ''dissolvedOxygen'', ''salinity''}"
    by (elim exE conjE) simp
  from nonpositive_dimensions_unchecked [OF n neg]
  have b: "\<not> isl (processImage (rejectingServices (- 3) 5))
     \<and> dom (projr (processImage (rejectingServices (- 3) 5)))
        = {''pH'', ''temperature'', ''dissolvedOxygen'', ''salinity''}"
    by (elim exE conjE) simp
  from m n a b show ?thesis by simp
qed

text \<open>
  The claim as stated fails: for a decoded size of 0 by 0, with an image library that
  rejects every extraction, \<^verbatim>\<open>processImage\<close> signals no error and returns a result,
  every slot of which is the placeholder.
\<close>

theorem zero_size_returns_result_counterexample:
  "metadata (rejectingServices 0 0) = Inr (0, 0)
   \<and> processImage (rejectingServices 0 0)
       = Inr (map_of [(''temperature'', ''0.00''), (''pH'', ''0.00''),
                      (''dissolvedOxygen'', ''0.00''), (''salinity'', ''0.00'')])"
proof -
  have "assemble (rejectingServices 0 0) (quadrants 0 0)
       = map_of [(''temperature'', ''0.00''), (''pH'', ''0.00''),
                      (''dissolvedOxygen'', ''0.00''), (''salinity'', ''0.00'')]"
    by (rule ext) (simp add: assemble_lookup quadrants_def processQuadrant_rejecting)
  then show ?thesis
    by (simp add: processImage_def rejectingServices_def)
qed

lemma select_tie_example:
  "selectBest ''temperature'' (''0.00'', 0)
     [\<lparr>data_text = ''22.5'', data_confidence = 70\<rparr>,
      \<lparr>data_text = ''-3.0'', data_confidence = 70\<rparr>] = Inr (''22.50'', 70)"
  by (simp add: extract_22_5 extract_minus_3)

text \<open>
  Claim C8. The result is a function of the image metadata and of the behaviour of the
  image library and the OCR engine: two runs with the same behaviour give the same
  result. The order in which the four tasks finish and write their slots does not
  matter: for every permutation of the tasks the assembled result is the one
  \<^verbatim>\<open>processImage\<close> returns. A tie of confidences is resolved by scan order, the same
  way in every run.
\<close>

theorem result_deterministic:
  assumes "metadata sv = Inr (width, height)"
    and "mset order = mset (quadrants width height)"
  shows "processImage sv = Inr (assemble sv order)
    \<and> (\<forall>sv'. metadata sv' = metadata sv \<and> preprocess sv' = preprocess sv
            \<and> recognize sv' = recognize sv \<longrightarrow> processImage sv' = processImage sv)
    \<and> selectBest ''temperature'' (''0.00'', 0)
         [\<lparr>data_text = ''22.5'', data_confidence = 70\<rparr>,
          \<lparr>data_text = ''-3.0'', data_confidence = 70\<rparr>] = Inr (''22.50'', 70)"
proof (intro conjI allI impI)
  have "assemble sv order = assemble sv (quadrants width height)"
    using assms(2) quadrants_distinct by (rule assemble_permutation)
  with assms(1) show "processImage sv = Inr (assemble sv order)"
    by (simp add: processImage_def)
next
  fix sv' :: "'a services"
  assume "metadata sv' = metadata sv \<and> preprocess sv' = preprocess sv
            \<and> recognize sv' = recognize sv"
  then have "sv' = sv" by simp
  then show "processImage sv' = processImage sv" by simp
next
  show "selectBest ''temperature'' (''0.00'', 0)
         [\<lparr>data_text = ''22.5'', data_confidence = 70\<rparr>,
          \<lparr>data_text = ''-3.0'', data_confidence = 70\<rparr>] = Inr (''22.50'', 70)"
    by (rule select_tie_example)
qed

theorem result_deterministic_witness:
  "metadata sampleServices = Inr (400, 400)
   \<and> mset (rev (quadrants 400 400)) = mset (quadrants 400 400)
   \<and> processImage sampleServices = Inr (assemble sampleServices (rev (quadrants 400 400)))"
proof -
  have m: "metadata sampleServices = Inr (400, 400)"
    by (simp add: sampleServices_def)
  have p: "mset (rev (quadrants 400 400)) = mset (quadrants 400 400)"
    by (rule mset_rev)
  from result_deterministic [OF m p, THEN conjunct1] m p show ?thesis
    by (intro conjI)
qed

end
